(* ===== verification/Calc_Prelude.thy ===== *)
theory Calc_Prelude
  imports
    Main
    "HOL-Library.Log_Nat"
    "HOL-Library.Sublist"
    "HOL-Library.Char_ord"
    "HOL-Library.List_Lexorder"
begin

text \<open>
  Shared vocabulary of the calculator development: the fact collections the
  component theories feed, the JavaScript string operations the source calls
  (\<^verbatim>\<open>includes\<close>, \<^verbatim>\<open>slice(0, -1)\<close>, \<^verbatim>\<open>||\<close> on strings, comparison of strings by
  code unit), decimal digit characters, and the list lemmas about counting a
  character that several components need. Strings are \<^typ>\<open>string\<close>; every
  string the calculator builds is ASCII, so a \<^typ>\<open>char\<close> stands for one UTF-16
  code unit and \<^const>\<open>length\<close> is JavaScript's \<^verbatim>\<open>.length\<close>.
\<close>

section \<open>Fact collections\<close>

named_theorems calc_defs "unfolding equations of the calculator's handlers"
named_theorems js_defs "unfolding equations of the modelled ECMAScript operations"
named_theorems digit_simps "facts about decimal digit characters and digit strings"

section \<open>JavaScript strings\<close>

type_synonym js_string = string

text \<open>\<^verbatim>\<open>s.includes(t)\<close>: \<open>t\<close> occurs in \<open>s\<close> as a contiguous substring.\<close>

fun js_includes :: "js_string \<Rightarrow> js_string \<Rightarrow> bool" where
  "js_includes [] t = (t = [])"
| "js_includes (c # cs) t = (prefix t (c # cs) \<or> js_includes cs t)"

text \<open>\<^verbatim>\<open>s.slice(0, -1)\<close>: all but the last code unit; the empty string stays empty.\<close>

definition slice_0_minus1 :: "js_string \<Rightarrow> js_string" where
  "slice_0_minus1 s = butlast s"

text \<open>\<^verbatim>\<open>s || d\<close> on strings: the empty string is falsy.\<close>

definition or_else :: "js_string \<Rightarrow> js_string \<Rightarrow> js_string" where
  "or_else s d = (if s = [] then d else s)"

text \<open>The number of occurrences of a character, for the decimal-point invariant.\<close>

abbreviation dots :: "js_string \<Rightarrow> nat" where
  "dots s \<equiv> count_list s (CHR ''.'')"

lemma js_includes_sublist: "js_includes s t \<longleftrightarrow> sublist t s"
  by (induction s) (auto simp: sublist_Cons_right)

lemma js_includes_single [simp]: "js_includes s [c] \<longleftrightarrow> c \<in> set s"
  by (induction s) auto

lemma count_list_0_iff_notin: "count_list xs x = 0 \<longleftrightarrow> x \<notin> set xs"
  by (induction xs) auto

lemma count_list_butlast_le: "count_list (butlast xs) x \<le> count_list xs x"
  by (induction xs) auto

lemma count_list_append_single:
  "count_list (xs @ [y]) x = count_list xs x + (if y = x then 1 else 0)"
  by simp

lemma count_list_replicate_other [simp]: "y \<noteq> x \<Longrightarrow> count_list (replicate n y) x = 0"
  by (induction n) auto

lemma count_list_take_drop:
  "count_list (take n xs) x + count_list (drop n xs) x = count_list xs x"
  by (metis append_take_drop_id count_list_append)

lemma slice_0_minus1_length [simp]: "length (slice_0_minus1 s) = length s - 1"
  by (simp add: slice_0_minus1_def)

lemma slice_0_minus1_snoc [simp]: "slice_0_minus1 (s @ [c]) = s"
  by (simp add: slice_0_minus1_def)

lemma or_else_nonempty [simp]: "or_else s d \<noteq> [] \<longleftrightarrow> s \<noteq> [] \<or> d \<noteq> []"
  by (simp add: or_else_def)

lemma or_else_simps [simp]: "or_else [] d = d" "or_else (c # cs) d = c # cs"
  by (simp_all add: or_else_def)

section \<open>Decimal digit characters\<close>

definition is_digit :: "char \<Rightarrow> bool" where
  "is_digit c \<longleftrightarrow> c \<in> set ''0123456789''"

definition digit_value :: "char \<Rightarrow> int" where
  "digit_value c = int (of_char c) - 48"

definition digit_char :: "int \<Rightarrow> char" where
  "digit_char d = ''0123456789'' ! nat d"

lemma digit_cases:
  assumes "0 \<le> d" "d < 10"
  obtains "d = 0" | "d = 1" | "d = 2" | "d = 3" | "d = 4"
    | "d = 5" | "d = 6" | "d = 7" | "d = 8" | "d = (9::int)"
proof -
  from assms have "d = 0 \<or> d = 1 \<or> d = 2 \<or> d = 3 \<or> d = 4
      \<or> d = 5 \<or> d = 6 \<or> d = 7 \<or> d = 8 \<or> d = 9"
    by arith
  then show thesis
    using that by blast
qed

lemma digit_char_is_digit [digit_simps]: "0 \<le> d \<Longrightarrow> d < 10 \<Longrightarrow> is_digit (digit_char d)"
  by (erule (1) digit_cases) (simp_all add: is_digit_def digit_char_def)

lemma digit_char_neg [simp]: "d \<le> 0 \<Longrightarrow> digit_char d = CHR ''0''"
  by (simp add: digit_char_def)

lemma digit_char_is_digit' [digit_simps]: "d < 10 \<Longrightarrow> is_digit (digit_char d)"
  by (cases "0 \<le> d") (simp_all add: digit_char_is_digit, simp add: is_digit_def)

lemma digit_value_digit_char [digit_simps]:
  "0 \<le> d \<Longrightarrow> d < 10 \<Longrightarrow> digit_value (digit_char d) = d"
  by (erule (1) digit_cases) (simp_all add: digit_value_def digit_char_def)

lemma digit_char_digit_value [digit_simps]: "is_digit c \<Longrightarrow> digit_char (digit_value c) = c"
  by (auto simp: is_digit_def digit_value_def digit_char_def)

lemma digit_value_range [digit_simps]: "is_digit c \<Longrightarrow> 0 \<le> digit_value c \<and> digit_value c < 10"
  by (auto simp: is_digit_def digit_value_def)

lemma dots_digits [digit_simps]: "list_all is_digit ds \<Longrightarrow> dots ds = 0"
  by (induction ds) (auto simp: is_digit_def)

lemma char_digit_range:
  assumes "CHR ''0'' \<le> c" "c \<le> CHR ''9''"
  shows "is_digit c"
proof -
  from assms have "48 \<le> (of_char c :: nat)" "(of_char c :: nat) \<le> 57"
    by (simp_all add: less_eq_char_def)
  then have "(of_char c :: nat) \<in> of_char ` set ''0123456789''"
    by (simp, arith)
  then show ?thesis
    unfolding is_digit_def by (auto simp only: of_char_eq_iff)
qed

lemma is_digit_not_special [digit_simps]:
  "is_digit c \<Longrightarrow> c \<noteq> CHR ''.'' \<and> c \<noteq> CHR ''-'' \<and> c \<noteq> CHR ''E'' \<and> c \<noteq> CHR ''e''"
  by (auto simp: is_digit_def)

section \<open>Integers\<close>

lemma abs_div_le:
  fixes a b :: int
  assumes "b dvd a" "b \<noteq> 0"
  shows "\<bar>a div b\<bar> \<le> \<bar>a\<bar>"
proof -
  from assms(1) obtain k where k: "a = b * k" ..
  have "1 * \<bar>k\<bar> \<le> \<bar>b\<bar> * \<bar>k\<bar>"
    using assms(2) by (intro mult_right_mono) simp_all
  thus ?thesis using assms(2) by (simp add: k abs_mult)
qed

end
