(* ===== verification/JS_Number.thy ===== *)
theory JS_Number
  imports Calc_Prelude
begin

text \<open>
  The Number values of ECMAScript (IEEE 754 binary64) and the arithmetic the
  calculator performs on them: \<^verbatim>\<open>+\<close>, \<^verbatim>\<open>-\<close>, \<^verbatim>\<open>*\<close>, \<^verbatim>\<open>/\<close>, \<^verbatim>\<open>=== 0\<close> and
  \<^verbatim>\<open>Number.isInteger\<close> (Calculator.tsx lines 73--93, 115, 121).

  A finite value is kept as sign, magnitude and binary exponent,
  \<open>Fin s m e\<close> standing for \<open>(-1)\<^sup>s \<sqdot> m \<sqdot> 2\<^sup>e\<close>, in the normal form where \<open>m\<close>
  is odd, or \<open>m = 0\<close> and \<open>e = 0\<close>. In this form two values are the same double
  exactly when they are the same term, the two zeros \<open>Fin False 0 0\<close> and
  \<open>Fin True 0 0\<close> stay apart, and \<open>is_double\<close> carves out the values binary64
  has: 53 significant bits, exponent of the last bit at least \<open>-1074\<close>,
  magnitude below \<open>2\<^sup>1\<^sup>0\<^sup>2\<^sup>4\<close>. Every operation computes the exact result as a
  fraction of integers and rounds it once, to nearest with ties to even, in
  \<open>round_frac\<close>; overflow gives an infinity and underflow a signed zero.
\<close>

section \<open>Values\<close>

datatype number = NaN | Infty bool | Fin bool int int

definition is_double :: "number \<Rightarrow> bool" where
  "is_double x =
     (case x of
        Fin s m e \<Rightarrow>
          (m = 0 \<and> e = 0) \<or>
          (0 < m \<and> odd m \<and> m < 2 ^ 53 \<and> - 1074 \<le> e \<and> bitlen m + e \<le> 1024)
      | _ \<Rightarrow> True)"

definition signed :: "bool \<Rightarrow> int \<Rightarrow> int" where
  "signed s m = (if s then - m else m)"

text \<open>The real number a finite value denotes; infinities and NaN denote none.\<close>

definition value_of :: "number \<Rightarrow> real option" where
  "value_of x =
     (case x of
        Fin s m e \<Rightarrow> Some (real_of_int (signed s m) * 2 powi e)
      | _ \<Rightarrow> None)"

section \<open>Rounding an exact fraction to a double\<close>

text \<open>Normal form: the trailing zero bits of the magnitude move into the exponent.\<close>

function strip_zeros :: "int \<Rightarrow> int \<Rightarrow> int \<times> int" where
  "strip_zeros m e =
     (if m \<le> 0 then (0, 0)
      else if even m then strip_zeros (m div 2) (e + 1)
      else (m, e))"
  by pat_completeness auto
termination
  by (relation "measure (\<lambda>(m, e). nat m)") auto

declare strip_zeros.simps [simp del]

text \<open>\<open>\<lfloor>log\<^sub>2 (p / q)\<rfloor>\<close> for positive \<open>p\<close> and \<open>q\<close>, from the two bit lengths.\<close>

definition floor_log2 :: "int \<Rightarrow> int \<Rightarrow> int" where
  "floor_log2 p q =
     (let d = bitlen p - bitlen q
      in if q * 2 ^ nat d \<le> p * 2 ^ nat (- d) then d else d - 1)"

text \<open>The integer nearest to \<open>n / d\<close>, a tie going to the even neighbour.\<close>

definition round_half_even :: "int \<Rightarrow> int \<Rightarrow> int" where
  "round_half_even n d =
     (let q = n div d; r = n mod d
      in if 2 * r < d then q
         else if d < 2 * r then q + 1
         else if even q then q else q + 1)"

text \<open>
  The double nearest to \<open>(-1)\<^sup>s \<sqdot> p / q\<close> for \<open>p \<ge> 0\<close> and \<open>q > 0\<close>. The last
  kept bit has exponent \<open>k\<close>: 52 below the leading bit, but never below
  \<open>-1074\<close>, where the subnormal range begins.
\<close>

definition round_frac :: "bool \<Rightarrow> int \<Rightarrow> int \<Rightarrow> number" where
  "round_frac s p q =
     (if p = 0 then Fin s 0 0
      else
        let k = max (floor_log2 p q - 52) (- 1074);
            m = round_half_even (p * 2 ^ nat (- k)) (q * 2 ^ nat k)
        in if 971 < k \<or> (k = 971 \<and> 2 ^ 53 \<le> m) then Infty s
           else case strip_zeros m k of (m', e') \<Rightarrow> Fin s m' e')"

text \<open>The double nearest to the integer \<open>v\<close> times \<open>2\<^sup>k\<close>; \<open>z\<close> signs a zero result.\<close>

definition round_dyadic :: "bool \<Rightarrow> int \<Rightarrow> int \<Rightarrow> number" where
  "round_dyadic z v k =
     (if v = 0 then Fin z 0 0
      else round_frac (v < 0) (\<bar>v\<bar> * 2 ^ nat k) (2 ^ nat (- k)))"

text \<open>A numeric literal of the source with an integer value.\<close>

definition number_of_int :: "int \<Rightarrow> number" where
  "number_of_int i = round_dyadic False i 0"

section \<open>Arithmetic\<close>

text \<open>
  \<^verbatim>\<open>x + y\<close> (Number::add). A zero sum is negative only when both operands are
  negative zeros.
\<close>

fun number_add :: "number \<Rightarrow> number \<Rightarrow> number" where
  "number_add NaN y = NaN"
| "number_add x NaN = NaN"
| "number_add (Infty s) (Infty t) = (if s = t then Infty s else NaN)"
| "number_add (Infty s) (Fin t n f) = Infty s"
| "number_add (Fin s m e) (Infty t) = Infty t"
| "number_add (Fin s m e) (Fin t n f) =
     (let k = min e f
      in round_dyadic (s \<and> t)
           (signed s m * 2 ^ nat (e - k) + signed t n * 2 ^ nat (f - k)) k)"

text \<open>\<^verbatim>\<open>-x\<close> (Number::unaryMinus) and \<^verbatim>\<open>x - y\<close> (Number::subtract).\<close>

fun number_unaryMinus :: "number \<Rightarrow> number" where
  "number_unaryMinus NaN = NaN"
| "number_unaryMinus (Infty s) = Infty (\<not> s)"
| "number_unaryMinus (Fin s m e) = Fin (\<not> s) m e"

definition number_subtract :: "number \<Rightarrow> number \<Rightarrow> number" where
  "number_subtract x y = number_add x (number_unaryMinus y)"

text \<open>\<^verbatim>\<open>x * y\<close> (Number::multiply): zero times infinity is NaN.\<close>

fun number_multiply :: "number \<Rightarrow> number \<Rightarrow> number" where
  "number_multiply NaN y = NaN"
| "number_multiply x NaN = NaN"
| "number_multiply (Infty s) (Infty t) = Infty (s \<noteq> t)"
| "number_multiply (Infty s) (Fin t n f) = (if n = 0 then NaN else Infty (s \<noteq> t))"
| "number_multiply (Fin s m e) (Infty t) = (if m = 0 then NaN else Infty (s \<noteq> t))"
| "number_multiply (Fin s m e) (Fin t n f) =
     round_frac (s \<noteq> t) (m * n * 2 ^ nat (e + f)) (2 ^ nat (- (e + f)))"

text \<open>
  \<^verbatim>\<open>x / y\<close> (Number::divide): it never fails; a zero divisor gives an infinity,
  or NaN when the dividend is zero too.
\<close>

fun number_divide :: "number \<Rightarrow> number \<Rightarrow> number" where
  "number_divide NaN y = NaN"
| "number_divide x NaN = NaN"
| "number_divide (Infty s) (Infty t) = NaN"
| "number_divide (Infty s) (Fin t n f) = Infty (s \<noteq> t)"
| "number_divide (Fin s m e) (Infty t) = Fin (s \<noteq> t) 0 0"
| "number_divide (Fin s m e) (Fin t n f) =
     (if n = 0 then (if m = 0 then NaN else Infty (s \<noteq> t))
      else round_frac (s \<noteq> t) (m * 2 ^ nat (e - f)) (n * 2 ^ nat (f - e)))"

text \<open>\<^verbatim>\<open>x === 0\<close>: true of both zeros, false of NaN.\<close>

fun is_zero :: "number \<Rightarrow> bool" where
  "is_zero (Fin s m e) = (m = 0)"
| "is_zero x = False"

text \<open>\<^verbatim>\<open>Number.isInteger(x)\<close>: finite with no fractional part.\<close>

fun isInteger :: "number \<Rightarrow> bool" where
  "isInteger (Fin s m e) = (m = 0 \<or> 0 \<le> e)"
| "isInteger x = False"

lemmas number_defs [js_defs] =
  round_frac_def round_dyadic_def round_half_even_def floor_log2_def
  number_of_int_def number_subtract_def signed_def

section \<open>Scaling by powers of two\<close>

text \<open>
  The definitions compare fractions by cross-multiplying with natural powers of
  two; these lemmas read such comparisons as comparisons of the real ratio with
  an integer power of two.
\<close>

lemma powi_split: "(2::real) powi d = 2 ^ nat d / 2 ^ nat (- d)"
  by (cases "0 \<le> d") (simp_all add: power_int_def field_simps)

lemma scaled_le_iff:
  assumes "0 < q"
  shows "(q * 2 ^ nat d \<le> p * 2 ^ nat (- d)) = (2 powi d \<le> real_of_int p / real_of_int q)"
proof -
  have "(q * 2 ^ nat d \<le> p * 2 ^ nat (- d)) =
        (real_of_int (q * 2 ^ nat d) \<le> real_of_int (p * 2 ^ nat (- d)))"
    by (simp only: of_int_le_iff)
  also have "\<dots> = (2 powi d \<le> real_of_int p / real_of_int q)"
    using assms by (simp add: powi_split field_simps)
  finally show ?thesis .
qed

lemma scaled_less_iff:
  assumes "0 < q"
  shows "(p * 2 ^ nat (- d) < q * 2 ^ nat d) = (real_of_int p / real_of_int q < 2 powi d)"
  using scaled_le_iff [OF assms, of d p] by (simp add: not_le [symmetric])

lemma bitlen_powi:
  assumes "0 < p"
  shows "2 powi (bitlen p - 1) \<le> real_of_int p" "real_of_int p < 2 powi bitlen p"
proof -
  from assms have b: "1 \<le> bitlen p"
    using bitlen_eq_zero_iff [of p] bitlen_nonneg [of p] by linarith
  from bitlen_bounds [OF assms]
  have "real_of_int (2 ^ nat (bitlen p - 1)) \<le> real_of_int p"
       "real_of_int p < real_of_int (2 ^ nat (bitlen p))"
    by (simp_all only: of_int_le_iff of_int_less_iff)
  with b show "2 powi (bitlen p - 1) \<le> real_of_int p" "real_of_int p < 2 powi bitlen p"
    by (simp_all add: power_int_def)
qed

lemma floor_log2_bounds:
  assumes "0 < p" "0 < q"
  shows "2 powi floor_log2 p q \<le> real_of_int p / real_of_int q"
    and "real_of_int p / real_of_int q < 2 powi (floor_log2 p q + 1)"
proof -
  let ?d = "bitlen p - bitlen q"
  let ?r = "real_of_int p / real_of_int q"
  have "2 powi (bitlen p - 1) / 2 powi bitlen q < ?r"
    using bitlen_powi [OF assms(1)] bitlen_powi [OF assms(2)] assms
    by (intro frac_less2) auto
  hence lo: "2 powi (?d - 1) < ?r"
    by (simp add: power_int_diff)
  have "?r < 2 powi bitlen p / 2 powi (bitlen q - 1)"
    using bitlen_powi [OF assms(1)] bitlen_powi [OF assms(2)] assms
    by (intro frac_less) auto
  hence hi: "?r < 2 powi (?d + 1)"
    by (simp add: power_int_diff power_int_add)
  show "2 powi floor_log2 p q \<le> ?r"
    using lo assms by (simp add: floor_log2_def Let_def scaled_le_iff)
  show "?r < 2 powi (floor_log2 p q + 1)"
    using hi assms by (simp add: floor_log2_def Let_def scaled_le_iff not_le)
qed

lemma floor_log2_unique:
  assumes "0 < p" "0 < q"
    and "2 powi x \<le> real_of_int p / real_of_int q"
    and "real_of_int p / real_of_int q < 2 powi (x + 1)"
  shows "floor_log2 p q = x"
proof -
  let ?r = "real_of_int p / real_of_int q"
  let ?e = "floor_log2 p q"
  from floor_log2_bounds [OF assms(1,2)] assms(3,4)
  have "(2::real) powi ?e < 2 powi (x + 1)" "(2::real) powi x < 2 powi (?e + 1)"
    by linarith+
  moreover have "(2::real) powi (x + 1) \<le> 2 powi ?e" if "x + 1 \<le> ?e"
    using that by (intro power_int_increasing) auto
  moreover have "(2::real) powi (?e + 1) \<le> 2 powi x" if "?e + 1 \<le> x"
    using that by (intro power_int_increasing) auto
  ultimately show ?thesis by force
qed

section \<open>Normal form\<close>

lemma strip_zeros_nonpos: "m \<le> 0 \<Longrightarrow> strip_zeros m e = (0, 0)"
  by (simp add: strip_zeros.simps)

lemma strip_zeros_odd: "0 < m \<Longrightarrow> odd m \<Longrightarrow> strip_zeros m e = (m, e)"
  by (simp add: strip_zeros.simps)

lemma strip_zeros_even:
  "0 < m \<Longrightarrow> even m \<Longrightarrow> strip_zeros m e = strip_zeros (m div 2) (e + 1)"
  by (subst strip_zeros.simps) simp

lemma strip_zeros_shift:
  "0 < m \<Longrightarrow> odd m \<Longrightarrow> strip_zeros (m * 2 ^ j) e = (m, e + int j)"
proof (induction j arbitrary: e)
  case 0
  then show ?case by (simp add: strip_zeros_odd)
next
  case (Suc j)
  have "strip_zeros (m * 2 ^ Suc j) e = strip_zeros (m * 2 ^ j) (e + 1)"
    using Suc.prems by (subst strip_zeros_even) simp_all
  with Suc show ?case by simp
qed

lemma strip_zeros_pos:
  assumes "0 < m"
  obtains m' j where "odd m'" "0 < m'" "m = m' * 2 ^ j" "strip_zeros m e = (m', e + int j)"
  using assms
proof (induction m e arbitrary: thesis rule: strip_zeros.induct)
  case (1 m e)
  show ?case
  proof (cases "even m")
    case False
    with 1(2)[of m 0] 1(3) show ?thesis by (simp add: strip_zeros_odd)
  next
    case True
    with 1(3) have h: "0 < m div 2" "\<not> m \<le> 0" by presburger+
    obtain m' j where *: "odd m'" "0 < m'" "m div 2 = m' * 2 ^ j"
        "strip_zeros (m div 2) (e + 1) = (m', e + 1 + int j)"
      using 1(1) [OF h(2) True _ h(1)] by blast
    from True *(3) have "m = m' * 2 ^ Suc j" by auto
    with * True 1(3) show ?thesis
      by (intro 1(2) [of m' "Suc j"]) (simp_all add: strip_zeros_even)
  qed
qed

section \<open>Rounding to the nearest integer\<close>

lemma round_half_even_exact: "0 < d \<Longrightarrow> round_half_even (N * d) d = N"
  by (simp add: round_half_even_def)

lemma div_mult_le_self: "0 < (d::int) \<Longrightarrow> n div d * d \<le> n"
  using div_mult_mod_eq [of n d] pos_mod_sign [of d n] by linarith

lemma round_half_even_cases:
  assumes "0 < d"
  shows "(round_half_even n d = n div d \<and> 2 * (n mod d) \<le> d) \<or>
         (round_half_even n d = n div d + 1 \<and> d \<le> 2 * (n mod d))"
  by (auto simp: round_half_even_def Let_def)

lemma round_half_even_le:
  assumes "0 < d" "n \<le> N * d"
  shows "round_half_even n d \<le> N"
proof (cases "n = N * d")
  case True
  with assms show ?thesis by (simp add: round_half_even_exact)
next
  case False
  have "n div d < N"
  proof (rule ccontr)
    assume "\<not> n div d < N"
    hence "N * d \<le> n div d * d"
      using assms(1) by (intro mult_right_mono) auto
    with div_mult_le_self [OF assms(1), of n] assms(2) False show False by linarith
  qed
  thus ?thesis
    using round_half_even_cases [OF assms(1), of n] by linarith
qed

lemma round_half_even_ge:
  assumes "0 < d" "N * d \<le> n"
  shows "N \<le> round_half_even n d"
proof -
  have "N \<le> n div d"
    using zdiv_mono1 [OF assms(2,1)] assms(1) by simp
  thus ?thesis
    using round_half_even_cases [OF assms(1), of n] by linarith
qed

lemma round_half_even_nearest:
  assumes "0 < d"
  shows "\<bar>2 * (round_half_even n d * d - n)\<bar> \<le> d"
proof -
  have e: "n div d * d - n = - (n mod d)" "(n div d + 1) * d - n = d - n mod d"
    using div_mult_mod_eq [of n d] by (simp_all add: algebra_simps)
  have "0 \<le> n mod d" "n mod d < d" using assms by simp_all
  note b = this
  from round_half_even_cases [OF assms, of n] show ?thesis
  proof (elim disjE conjE)
    assume r: "round_half_even n d = n div d" "2 * (n mod d) \<le> d"
    show ?thesis unfolding r(1) e(1) using b r(2) by linarith
  next
    assume r: "round_half_even n d = n div d + 1" "d \<le> 2 * (n mod d)"
    show ?thesis unfolding r(1) e(2) using b r(2) by (simp add: abs_le_iff)
  qed
qed

section \<open>The rounding of a fraction yields a double\<close>

lemma round_frac_scaled_less:
  assumes "0 < p" "0 < q"
  defines "k \<equiv> max (floor_log2 p q - 52) (- 1074)"
  shows "p * 2 ^ nat (- k) < 2 ^ 53 * (q * 2 ^ nat k)"
proof -
  have "real_of_int p / real_of_int q < 2 powi (floor_log2 p q + 1)"
    by (rule floor_log2_bounds [OF assms(1,2)])
  also have "\<dots> \<le> 2 powi (k + 53)"
    by (intro power_int_increasing) (auto simp: k_def)
  finally have "real_of_int p / real_of_int (q * 2 ^ 53) < 2 powi k"
    using assms(2) by (simp add: power_int_add field_simps)
  hence "p * 2 ^ nat (- k) < (q * 2 ^ 53) * 2 ^ nat k"
    using assms(2) by (subst scaled_less_iff) simp_all
  thus ?thesis by (simp add: mult_ac)
qed

lemma round_frac_nz:
  assumes "p \<noteq> 0" "k = max (floor_log2 p q - 52) (- 1074)"
    "m = round_half_even (p * 2 ^ nat (- k)) (q * 2 ^ nat k)"
  shows "round_frac s p q =
      (if 971 < k \<or> (k = 971 \<and> 2 ^ 53 \<le> m) then Infty s
       else case strip_zeros m k of (m', e') \<Rightarrow> Fin s m' e')"
  unfolding round_frac_def Let_def assms(2,3) using assms(1) by (simp only: if_False)

lemmas round_frac_pos = round_frac_nz [OF less_imp_neq [THEN not_sym]]

lemma round_frac_cases:
  assumes "0 < p" "0 < q"
  obtains (overflow) "round_frac s p q = Infty s"
  | (zero) "round_frac s p q = Fin s 0 0"
  | (finite) k m m' j where
      "k = max (floor_log2 p q - 52) (- 1074)"
      "m = round_half_even (p * 2 ^ nat (- k)) (q * 2 ^ nat k)"
      "k \<le> 971" "k = 971 \<longrightarrow> m < 2 ^ 53" "0 < m" "m \<le> 2 ^ 53"
      "odd m'" "0 < m'" "m = m' * 2 ^ j" "round_frac s p q = Fin s m' (k + int j)"
proof -
  define k where "k = max (floor_log2 p q - 52) (- 1074)"
  define m where "m = round_half_even (p * 2 ^ nat (- k)) (q * 2 ^ nat k)"
  have d: "0 < q * 2 ^ nat k" using assms(2) by simp
  have m_le: "m \<le> 2 ^ 53"
    unfolding m_def using round_frac_scaled_less [OF assms] d
    by (intro round_half_even_le) (simp_all add: k_def)
  have m_ge: "0 \<le> m"
    unfolding m_def using assms d by (intro round_half_even_ge) simp_all
  note rf = round_frac_pos [OF assms(1) k_def m_def, of s]
  show ?thesis
  proof (cases "971 < k \<or> (k = 971 \<and> 2 ^ 53 \<le> m)")
    case True
    thus ?thesis using rf overflow by simp
  next
    case no: False
    show ?thesis
    proof (cases "m = 0")
      case True
      thus ?thesis using rf no zero by (simp add: strip_zeros_nonpos)
    next
      case False
      with m_ge have pos: "0 < m" by simp
      from strip_zeros_pos [OF pos, of k] obtain m' j where
        "odd m'" "0 < m'" "m = m' * 2 ^ j" "strip_zeros m k = (m', k + int j)"
        by metis
      thus ?thesis
        using rf no pos m_le by (intro finite [of k m m' j]) (auto simp: k_def m_def)
    qed
  qed
qed

lemma round_frac_is_double:
  assumes "0 \<le> p" "0 < q"
  shows "is_double (round_frac s p q)"
proof (cases "p = 0")
  case True
  thus ?thesis by (simp add: round_frac_def is_double_def)
next
  case False
  with assms have "0 < p" by simp
  from this assms(2) show ?thesis
  proof (cases rule: round_frac_cases [where s = s])
    case (finite k m m' j)
    have "m' \<le> m" using finite(8,9) by simp
    moreover have "m' \<noteq> 2 ^ 53" using finite(7) by auto
    ultimately have small: "m' < 2 ^ 53" using finite(6) by simp
    have "bitlen m + k \<le> 1024"
    proof (cases "m < 2 ^ 53")
      case True
      hence "bitlen m \<le> 53" by (simp add: bitlen_le_iff_power)
      with finite(3) show ?thesis by simp
    next
      case False
      with finite(3,4,6) have "k \<le> 970" "m < 2 ^ 54" by auto
      moreover from this have "bitlen m \<le> 54" by (simp add: bitlen_le_iff_power)
      ultimately show ?thesis by simp
    qed
    moreover have "bitlen m = bitlen m' + int j"
      using finite(8,9) by (simp add: bitlen_pow2)
    moreover have "- 1074 \<le> k" using finite(1) by simp
    ultimately show ?thesis
      using finite(7,8,10) small by (simp add: is_double_def)
  qed (simp_all add: is_double_def)
qed

section \<open>Arithmetic stays within the doubles\<close>

lemma is_double_simps [simp]:
  "is_double NaN" "is_double (Infty s)" "is_double (Fin s 0 0)"
  by (simp_all add: is_double_def)

lemma is_double_nonneg: "is_double (Fin s m e) \<Longrightarrow> 0 \<le> m"
  by (auto simp: is_double_def)

lemma round_dyadic_is_double: "is_double (round_dyadic z v k)"
  by (simp add: round_dyadic_def round_frac_is_double)

lemma number_of_int_is_double: "is_double (number_of_int i)"
  by (simp add: number_of_int_def round_dyadic_is_double)

lemma number_add_is_double: "is_double (number_add x y)"
  by (cases "(x, y)" rule: number_add.cases) (simp_all add: round_dyadic_is_double Let_def)

lemma number_unaryMinus_is_double [simp]:
  "is_double (number_unaryMinus x) = is_double x"
  by (cases x) (simp_all add: is_double_def)

lemma number_subtract_is_double: "is_double (number_subtract x y)"
  by (simp add: number_subtract_def number_add_is_double)

lemma number_multiply_is_double:
  assumes "is_double x" "is_double y"
  shows "is_double (number_multiply x y)"
proof (cases "(x, y)" rule: number_multiply.cases)
  case (6 s m e t n f)
  with assms have "0 \<le> m" "0 \<le> n" by (auto dest: is_double_nonneg)
  hence "0 \<le> m * n * 2 ^ nat (e + f)" by simp
  thus ?thesis using 6 by (simp add: round_frac_is_double)
qed simp_all

lemma number_divide_is_double:
  assumes "is_double x" "is_double y"
  shows "is_double (number_divide x y)"
proof (cases "(x, y)" rule: number_divide.cases)
  case (6 s m e t n f)
  with assms have "0 \<le> m" "0 \<le> n" by (auto dest: is_double_nonneg)
  hence "0 \<le> m * 2 ^ nat (e - f)" "n \<noteq> 0 \<longrightarrow> 0 < n * 2 ^ nat (f - e)" by simp_all
  thus ?thesis using 6 by (simp add: round_frac_is_double)
qed simp_all

text \<open>
  C18. The four arithmetic operators of the calculator are closed on binary64:
  applied to doubles, \<^verbatim>\<open>+\<close>, \<^verbatim>\<open>-\<close>, \<^verbatim>\<open>*\<close> and \<^verbatim>\<open>/\<close> each give a double again
  (a finite value in normal form within the format's precision and range, an
  infinity, or NaN).
\<close>

theorem arithmetic_closed:
  assumes "is_double x" "is_double y"
  shows "is_double (number_add x y) \<and> is_double (number_subtract x y) \<and>
         is_double (number_multiply x y) \<and> is_double (number_divide x y)"
  using assms
  by (simp add: number_add_is_double number_subtract_is_double
      number_multiply_is_double number_divide_is_double)

theorem arithmetic_closed_witness:
  "is_double (number_add (Fin False 1 0) (Fin False 3 0)) \<and>
   is_double (number_subtract (Fin False 1 0) (Fin False 3 0)) \<and>
   is_double (number_multiply (Fin False 1 0) (Fin False 3 0)) \<and>
   is_double (number_divide (Fin False 1 0) (Fin False 3 0))"
proof -
  have "is_double (Fin False 1 0)" "is_double (Fin False 3 0)"
    by code_simp+
  from arithmetic_closed [OF this] show ?thesis .
qed

end
