(* ===== verification/JS_Number_String.thy ===== *)
theory JS_Number_String
  imports JS_Number
begin

text \<open>
  The conversions between Number values and strings that the calculator calls:
  \<^verbatim>\<open>parseFloat\<close> (Calculator.tsx lines 63, 95, 114, 120), \<^verbatim>\<open>toString\<close> (lines 94,
  95, 115, 121) and \<^verbatim>\<open>toFixed(8)\<close> (line 95), following the algorithms of
  ECMA-262: Number::toString prints the shortest decimal that reads back as
  the same double (the closest one when several have that length),
  \<^verbatim>\<open>toFixed\<close> rounds the exact value half up at the requested digit, and
  \<^verbatim>\<open>parseFloat\<close> reads the longest prefix that is a decimal literal and
  rounds its exact value.
\<close>

section \<open>Decimal digit strings\<close>

function digits_of :: "int \<Rightarrow> string" where
  "digits_of n =
     (if n < 10 then [digit_char n]
      else digits_of (n div 10) @ [digit_char (n mod 10)])"
  by pat_completeness auto
termination
  by (relation "measure nat") auto

declare digits_of.simps [simp del]

definition value_digits :: "string \<Rightarrow> int" where
  "value_digits ds = foldl (\<lambda>a c. 10 * a + digit_value c) 0 ds"

section \<open>Number::toString\<close>

text \<open>The \<open>n\<close> with \<open>10\<^sup>n\<^sup>-\<^sup>1 \<le> p / q < 10\<^sup>n\<close>, for positive \<open>p\<close> and \<open>q\<close>.\<close>

definition decimal_exponent :: "int \<Rightarrow> int \<Rightarrow> int" where
  "decimal_exponent p q =
     (if q \<le> p then int (length (digits_of (p div q)))
      else 1 - int (length (digits_of ((q - 1) div p))))"

text \<open>The double that the decimal \<open>s \<sqdot> 10\<^sup>j\<close> denotes.\<close>

definition decimal_value :: "int \<Rightarrow> int \<Rightarrow> number" where
  "decimal_value s j = round_frac False (s * 10 ^ nat j) (10 ^ nat (- j))"

text \<open>A candidate that rounded up to \<open>10\<^sup>k\<close> has \<open>k\<close> digits in the next decade.\<close>

definition carry :: "nat \<Rightarrow> int \<times> int \<Rightarrow> int \<times> int" where
  "carry k sn = (case sn of (s, n) \<Rightarrow> if s = 10 ^ k then (10 ^ (k - 1), n + 1) else (s, n))"

text \<open>
  Step 5 of Number::toString for the positive double \<open>m \<sqdot> 2\<^sup>e\<close> with decimal
  exponent \<open>n\<close>: the least \<open>k\<close> for which some \<open>k\<close>-digit \<open>s\<close> has
  \<open>s \<sqdot> 10\<^sup>n\<^sup>-\<^sup>k\<close> round to the double. Only the two \<open>k\<close>-digit decimals around
  the double can qualify; of two that do, the closer one is taken, the even
  one on a tie. Seventeen digits identify any double, so the search stops
  there with the nearest decimal.
\<close>

definition scaled :: "int \<Rightarrow> int \<Rightarrow> int \<Rightarrow> int \<times> int" where
  "scaled m e j = (m * 2 ^ nat e * 10 ^ nat (- j), 2 ^ nat (- e) * 10 ^ nat j)"

definition candidate :: "int \<Rightarrow> int \<Rightarrow> int \<Rightarrow> nat \<Rightarrow> (int \<times> int) option" where
  "candidate m e n k =
     (let j = n - int k;
          num = fst (scaled m e j);
          den = snd (scaled m e j);
          lo = num div den;
          r = num mod den;
          lo_ok = (decimal_value lo j = Fin False m e);
          hi_ok = (r \<noteq> 0 \<and> decimal_value (lo + 1) j = Fin False m e);
          hi_closer = (den < 2 * r \<or> (den = 2 * r \<and> odd lo))
      in if lo_ok \<and> \<not> (hi_ok \<and> hi_closer) then Some (lo, n)
         else if hi_ok then Some (carry k (lo + 1, n))
         else None)"

definition nearest_decimal :: "int \<Rightarrow> int \<Rightarrow> int \<Rightarrow> nat \<Rightarrow> int \<times> int" where
  "nearest_decimal m e n k =
     carry k (round_half_even (fst (scaled m e (n - int k))) (snd (scaled m e (n - int k))), n)"

function digit_search :: "int \<Rightarrow> int \<Rightarrow> int \<Rightarrow> nat \<Rightarrow> int \<times> int" where
  "digit_search m e n k =
     (case candidate m e n k of
        Some sn \<Rightarrow> sn
      | None \<Rightarrow> if 17 \<le> k then nearest_decimal m e n k else digit_search m e n (Suc k))"
  by pat_completeness auto
termination
  by (relation "measure (\<lambda>(m, e, n, k). 17 - k)") auto

declare digit_search.simps [simp del]

definition shortest_decimal :: "int \<Rightarrow> int \<Rightarrow> int \<times> int" where
  "shortest_decimal m e =
     digit_search m e (decimal_exponent (m * 2 ^ nat e) (2 ^ nat (- e))) 1"

text \<open>Steps 6 to 10: the digits \<open>ds\<close> laid out for the decimal exponent \<open>n\<close>.\<close>

definition exponent_suffix :: "int \<Rightarrow> string" where
  "exponent_suffix n =
     ''e'' @ (if n - 1 < 0 then ''-'' else ''+'') @ digits_of \<bar>n - 1\<bar>"

definition format_decimal :: "string \<Rightarrow> int \<Rightarrow> string" where
  "format_decimal ds n =
     (let k = int (length ds)
      in if k \<le> n \<and> n \<le> 21 then ds @ replicate (nat (n - k)) (CHR ''0'')
         else if 0 < n \<and> n \<le> 21 then take (nat n) ds @ ''.'' @ drop (nat n) ds
         else if - 6 < n \<and> n \<le> 0 then ''0.'' @ replicate (nat (- n)) (CHR ''0'') @ ds
         else if k = 1 then ds @ exponent_suffix n
         else take 1 ds @ ''.'' @ drop 1 ds @ exponent_suffix n)"

definition number_toString :: "number \<Rightarrow> string" where
  "number_toString x =
     (case x of
        NaN \<Rightarrow> ''NaN''
      | Infty s \<Rightarrow> (if s then ''-Infinity'' else ''Infinity'')
      | Fin s m e \<Rightarrow>
          if m = 0 then ''0''
          else (if s then ''-'' else '''') @
               (case shortest_decimal m e of (d, n) \<Rightarrow> format_decimal (digits_of d) n))"

section \<open>Number.prototype.toFixed\<close>

definition number_toFixed :: "nat \<Rightarrow> number \<Rightarrow> string" where
  "number_toFixed f x =
     (case x of
        Fin s m e \<Rightarrow>
          if 10 ^ 21 * 2 ^ nat (- e) \<le> m * 2 ^ nat e then number_toString x
          else
            let n = (2 * m * 2 ^ nat e * 10 ^ f + 2 ^ nat (- e)) div (2 * 2 ^ nat (- e));
                ds = digits_of n;
                zs = replicate (f + 1 - length ds) (CHR ''0'') @ ds;
                a = length zs - f
            in (if s \<and> m \<noteq> 0 then ''-'' else '''') @
               (if f = 0 then zs else take a zs @ ''.'' @ drop a zs)
      | _ \<Rightarrow> number_toString x)"

section \<open>parseFloat\<close>

definition is_white_space :: "char \<Rightarrow> bool" where
  "is_white_space c \<longleftrightarrow> c \<in> set [CHR '' '', CHR 0x09, CHR 0x0A, CHR 0x0B, CHR 0x0C, CHR 0x0D]"

text \<open>An optional sign: whether it is a minus, and the rest.\<close>

definition take_sign :: "string \<Rightarrow> bool \<times> string" where
  "take_sign t =
     (case t of
        [] \<Rightarrow> (False, [])
      | c # r \<Rightarrow>
          if c = CHR ''-'' then (True, r)
          else if c = CHR ''+'' then (False, r)
          else (False, t))"

text \<open>
  The value of an ExponentPart at the head of the string, \<open>0\<close> when there is
  none: an \<^verbatim>\<open>e\<close> without digits behind it is not part of the literal.
\<close>

definition exponent_part :: "string \<Rightarrow> int" where
  "exponent_part t =
     (case t of
        [] \<Rightarrow> 0
      | c # r \<Rightarrow>
          if c = CHR ''e'' \<or> c = CHR ''E'' then
            (case take_sign r of
               (neg, u) \<Rightarrow> signed neg (value_digits (takeWhile is_digit u)))
          else 0)"

text \<open>The double nearest to \<open>(-1)\<^sup>s \<sqdot> M \<sqdot> 10\<^sup>E\<close>; a zero keeps the sign.\<close>

definition decimal_to_number :: "bool \<Rightarrow> int \<Rightarrow> int \<Rightarrow> number" where
  "decimal_to_number s M E = round_frac s (M * 10 ^ nat E) (10 ^ nat (- E))"

definition parseFloat :: "string \<Rightarrow> number" where
  "parseFloat str =
     (case take_sign (dropWhile is_white_space str) of
        (neg, u) \<Rightarrow>
          if prefix ''Infinity'' u then Infty neg
          else
            let ip = takeWhile is_digit u;
                r1 = dropWhile is_digit u;
                dot = (r1 \<noteq> [] \<and> hd r1 = CHR ''.'');
                fp = (if dot then takeWhile is_digit (tl r1) else []);
                r2 = (if dot then dropWhile is_digit (tl r1) else r1)
            in if ip = [] \<and> fp = [] then NaN
               else decimal_to_number neg (value_digits (ip @ fp))
                      (exponent_part r2 - int (length fp)))"

lemmas number_string_defs [js_defs] =
  number_toString_def number_toFixed_def parseFloat_def shortest_decimal_def
  format_decimal_def exponent_suffix_def decimal_exponent_def decimal_value_def
  decimal_to_number_def exponent_part_def take_sign_def carry_def value_digits_def
  scaled_def candidate_def nearest_decimal_def
  is_white_space_def

section \<open>The characters of a printed number\<close>

text \<open>
  What \<^verbatim>\<open>toString\<close> can print: digits, a point, a sign, the exponent mark and
  the letters of \<^verbatim>\<open>NaN\<close> and \<^verbatim>\<open>Infinity\<close>. The error marker of the calculator
  contains none of its own capital letter among them, which keeps the two
  apart.
\<close>

definition number_char :: "char \<Rightarrow> bool" where
  "number_char c \<longleftrightarrow> is_digit c \<or> c \<in> set ''.-+eNaInfity''"

lemma number_char_digit [digit_simps]: "is_digit c \<Longrightarrow> number_char c"
  by (simp add: number_char_def)

lemma number_chars_digits [digit_simps]: "list_all is_digit ds \<Longrightarrow> list_all number_char ds"
  by (induction ds) (auto simp: number_char_def)

lemma digits_of_nonempty [simp]: "digits_of n \<noteq> []"
  by (subst digits_of.simps) simp

lemma digits_of_digits [digit_simps]: "list_all is_digit (digits_of n)"
proof (induction n rule: digits_of.induct)
  case (1 n)
  show ?case
  proof (cases "n < 10")
    case True
    then show ?thesis
      by (subst digits_of.simps) (simp add: digit_simps)
  next
    case False
    with "1.IH" have "list_all is_digit (digits_of (n div 10))"
      by simp
    moreover have "is_digit (digit_char (n mod 10))"
      by (simp add: digit_simps)
    ultimately show ?thesis
      using False by (subst digits_of.simps) simp
  qed
qed

lemma exponent_suffix_chars: "list_all number_char (exponent_suffix n)"
  by (simp add: exponent_suffix_def number_chars_digits digits_of_digits)
    (simp add: number_char_def)

lemma exponent_suffix_dots: "dots (exponent_suffix n) = 0"
  by (simp add: exponent_suffix_def dots_digits digits_of_digits)

lemma format_decimal_chars:
  assumes "list_all is_digit ds"
  shows "list_all number_char (format_decimal ds n)"
proof -
  from assms have ds: "list_all number_char ds"
    by (rule number_chars_digits)
  then have "list_all number_char (take i ds)" "list_all number_char (drop i ds)" for i
    by (auto simp: list_all_iff dest: in_set_takeD in_set_dropD)
  moreover have "list_all number_char (replicate i (CHR ''0''))" for i
    by (simp add: list_all_iff number_char_def is_digit_def)
  moreover have "number_char (CHR ''.'')" "number_char (CHR ''0'')"
    by (simp_all add: number_char_def is_digit_def)
  ultimately show ?thesis
    using ds exponent_suffix_chars [of n]
    by (simp add: format_decimal_def Let_def is_digit_def)
qed

lemma format_decimal_dots:
  assumes "list_all is_digit ds"
  shows "dots (format_decimal ds n) \<le> 1"
proof -
  from assms have "dots ds = 0"
    by (rule dots_digits)
  moreover from this have "dots (take i ds) = 0" "dots (drop i ds) = 0" for i
    using count_list_take_drop [of i ds "CHR ''.''"] by simp_all
  ultimately show ?thesis
    by (simp add: format_decimal_def Let_def exponent_suffix_dots)
qed

lemma number_toString_chars: "list_all number_char (number_toString x)"
proof (cases x)
  case (Fin s m e)
  obtain d n where dn: "shortest_decimal m e = (d, n)"
    by (cases "shortest_decimal m e")
  have "list_all number_char (format_decimal (digits_of d) n)"
    by (rule format_decimal_chars) (rule digits_of_digits)
  with Fin dn show ?thesis
    by (simp add: number_toString_def) (simp add: number_char_def is_digit_def)
qed (simp_all add: number_toString_def number_char_def)

lemma number_toString_dots: "dots (number_toString x) \<le> 1"
proof (cases x)
  case (Fin s m e)
  obtain d n where dn: "shortest_decimal m e = (d, n)"
    by (cases "shortest_decimal m e")
  have "dots (format_decimal (digits_of d) n) \<le> 1"
    by (rule format_decimal_dots) (rule digits_of_digits)
  with Fin dn show ?thesis
    by (simp add: number_toString_def)
qed (simp_all add: number_toString_def)

lemma number_toString_nonempty [simp]: "number_toString x \<noteq> []"
proof (cases x)
  case (Fin s m e)
  obtain d n where dn: "shortest_decimal m e = (d, n)"
    by (cases "shortest_decimal m e")
  have "format_decimal (digits_of d) n \<noteq> []"
    by (simp add: format_decimal_def Let_def)
  with Fin dn show ?thesis
    by (simp add: number_toString_def)
qed (simp_all add: number_toString_def)

lemma number_toString_not_Error [simp]: "number_toString x \<noteq> ''Error''"
proof
  assume "number_toString x = ''Error''"
  with number_toString_chars [of x] have "number_char (CHR ''E'')"
    by simp
  then show False
    by (simp add: number_char_def is_digit_def)
qed

section \<open>Parsing yields doubles\<close>

lemma foldl_digits_nonneg:
  "0 \<le> a \<Longrightarrow> list_all is_digit ds \<Longrightarrow>
     0 \<le> foldl (\<lambda>a c. 10 * a + digit_value c) a ds"
proof (induction ds arbitrary: a)
  case (Cons c ds)
  from Cons.prems have "0 \<le> 10 * a + digit_value c"
    using digit_value_range [of c] by simp
  with Cons show ?case by simp
qed simp

lemma value_digits_nonneg: "list_all is_digit ds \<Longrightarrow> 0 \<le> value_digits ds"
  by (simp add: value_digits_def foldl_digits_nonneg)

lemma takeWhile_digits [simp]: "list_all is_digit (takeWhile is_digit u)"
  by (auto simp: list_all_iff dest: set_takeWhileD)

lemma decimal_to_number_is_double:
  "0 \<le> M \<Longrightarrow> is_double (decimal_to_number s M E)"
  by (simp add: decimal_to_number_def round_frac_is_double)

lemma parseFloat_is_double: "is_double (parseFloat str)"
proof -
  obtain neg u where ts: "take_sign (dropWhile is_white_space str) = (neg, u)"
    by fastforce
  show ?thesis
    unfolding parseFloat_def ts Let_def prod.case
    by (simp add: decimal_to_number_is_double value_digits_nonneg)
qed

section \<open>Digit strings and typed literals\<close>

lemma digits_of_small: "n < 10 \<Longrightarrow> digits_of n = [digit_char n]"
  by (subst digits_of.simps) simp

lemma digits_of_step:
  "10 \<le> n \<Longrightarrow> digits_of n = digits_of (n div 10) @ [digit_char (n mod 10)]"
  by (subst digits_of.simps) simp

lemma value_digits_snoc [simp]:
  "value_digits (ds @ [c]) = 10 * value_digits ds + digit_value c"
  by (simp add: value_digits_def)

lemma value_digits_Nil [simp]: "value_digits [] = 0"
  by (simp add: value_digits_def)

lemma value_digits_digits_of: "0 \<le> n \<Longrightarrow> value_digits (digits_of n) = n"
proof (induction n rule: digits_of.induct)
  case (1 n)
  show ?case
  proof (cases "n < 10")
    case True
    with 1(2) show ?thesis
      using value_digits_snoc [of "[]"] by (simp add: digits_of_small digit_simps)
  next
    case False
    with 1 have "value_digits (digits_of (n div 10)) = n div 10" by simp
    with False show ?thesis
      by (simp add: digits_of_step digit_simps)
  qed
qed

lemma is_digit_not_sign [digit_simps]:
  "is_digit c \<Longrightarrow> c \<noteq> CHR ''+'' \<and> c \<noteq> CHR ''I'' \<and> \<not> is_white_space c"
  by (auto simp: is_digit_def is_white_space_def)

lemma not_digit_point [simp]: "\<not> is_digit CHR ''.''"
  by (simp add: is_digit_def)

lemma takeWhile_digits_point:
  "list_all is_digit ip \<Longrightarrow> takeWhile is_digit (ip @ CHR ''.'' # r) = ip"
  by (induction ip) (simp_all add: is_digit_def)

lemma dropWhile_digits_point:
  "list_all is_digit ip \<Longrightarrow> dropWhile is_digit (ip @ CHR ''.'' # r) = CHR ''.'' # r"
  by (induction ip) (simp_all add: is_digit_def)

lemma parse_head:
  assumes "is_digit c"
  shows "take_sign (dropWhile is_white_space (c # r)) = (False, c # r)"
    and "\<not> prefix ''Infinity'' (c # r)"
  using is_digit_not_sign [OF assms] is_digit_not_special [OF assms]
  by (auto simp: take_sign_def)

lemma exponent_part_Nil [simp]: "exponent_part [] = 0"
  by (simp add: exponent_part_def)

lemma parseFloat_integer_part:
  assumes "take_sign (dropWhile is_white_space str) = (neg, u)" "\<not> prefix ''Infinity'' u"
    and "takeWhile is_digit u = ip" "dropWhile is_digit u = []" "ip \<noteq> []"
  shows "parseFloat str = decimal_to_number neg (value_digits ip) 0"
  unfolding parseFloat_def assms(1,3,4) Let_def prod.case using assms(2,5) by simp

lemma parseFloat_fraction_part:
  assumes "take_sign (dropWhile is_white_space str) = (neg, u)" "\<not> prefix ''Infinity'' u"
    and "takeWhile is_digit u = ip" "dropWhile is_digit u = CHR ''.'' # t"
    and "takeWhile is_digit t = fp" "dropWhile is_digit t = r2" "ip \<noteq> [] \<or> fp \<noteq> []"
  shows "parseFloat str =
         decimal_to_number neg (value_digits (ip @ fp)) (exponent_part r2 - int (length fp))"
  unfolding parseFloat_def assms(1,3,4) Let_def prod.case list.sel
  using assms(2,7) by (auto simp: assms(5,6))

text \<open>The strings a user can type: digits, or digits, a point and digits.\<close>

lemma parseFloat_digits:
  assumes "list_all is_digit ds" "ds \<noteq> []"
  shows "parseFloat ds = decimal_to_number False (value_digits ds) 0"
proof -
  from assms obtain c r where ds: "ds = c # r" "is_digit c" by (cases ds) auto
  from parse_head [OF ds(2), of r] assms show ?thesis
    unfolding ds(1) [symmetric]
    by (intro parseFloat_integer_part) (simp_all add: list_all_iff)
qed

lemma parseFloat_decimal:
  assumes "list_all is_digit ip" "ip \<noteq> []" "list_all is_digit fp"
  shows "parseFloat (ip @ ''.'' @ fp) =
         decimal_to_number False (value_digits (ip @ fp)) (- int (length fp))"
proof -
  from assms obtain c r where ip: "ip = c # r" "is_digit c" by (cases ip) auto
  have "ip @ ''.'' @ fp = c # (r @ ''.'' @ fp)" by (simp add: ip(1))
  with parse_head [OF ip(2), of "r @ ''.'' @ fp"]
  have h: "take_sign (dropWhile is_white_space (ip @ ''.'' @ fp)) = (False, ip @ ''.'' @ fp)"
    "\<not> prefix ''Infinity'' (ip @ ''.'' @ fp)"
    by simp_all
  from parseFloat_fraction_part [OF h, of ip fp fp "[]"] assms show ?thesis
    by (simp add: takeWhile_digits_point dropWhile_digits_point list_all_iff)
qed

lemma decimal_to_number_int: "0 \<le> n \<Longrightarrow> decimal_to_number False n 0 = number_of_int n"
  by (simp add: decimal_to_number_def number_of_int_def round_dyadic_def round_frac_def)

lemma parseFloat_digits_of: "0 \<le> n \<Longrightarrow> parseFloat (digits_of n) = number_of_int n"
  by (simp add: parseFloat_digits digits_of_digits value_digits_digits_of decimal_to_number_int)

section \<open>Length and leading digit of a printed integer\<close>

lemma digits_of_length:
  "0 < k \<Longrightarrow> n < 10 ^ k \<Longrightarrow> length (digits_of n) \<le> k"
proof (induction n arbitrary: k rule: digits_of.induct)
  case (1 n)
  show ?case
  proof (cases "n < 10")
    case True
    with 1(2) show ?thesis by (simp add: digits_of_small)
  next
    case False
    with 1(3) have "k \<noteq> 1" by auto
    with 1(2) obtain k' where k: "k = Suc k'" "0 < k'" by (cases k) auto
    with 1(3) have "n div 10 < 10 ^ k'" by simp
    from 1(1) [OF False k(2) this] False k(1) show ?thesis
      by (simp add: digits_of_step)
  qed
qed

lemma digit_char_eq_0: "0 \<le> d \<Longrightarrow> d < 10 \<Longrightarrow> (digit_char d = CHR ''0'') = (d = 0)"
  by (erule (1) digit_cases) (simp_all add: digit_char_def)

lemma digits_of_length_less: "10 ^ k \<le> n \<Longrightarrow> k < length (digits_of n)"
proof (induction k arbitrary: n)
  case 0
  then show ?case by (subst digits_of.simps) simp
next
  case (Suc k)
  have "(1::int) \<le> 10 ^ k" by simp
  with Suc.prems have "\<not> n < 10" unfolding power_Suc by linarith
  moreover from Suc.prems have "10 ^ k \<le> n div 10" by simp
  ultimately have "\<not> n < 10" "10 ^ k \<le> n div 10" .
  with Suc.IH [of "n div 10"] show ?case by (subst digits_of.simps) simp
qed

lemma digits_of_hd: "0 < n \<Longrightarrow> hd (digits_of n) \<noteq> CHR ''0''"
proof (induction n rule: digits_of.induct)
  case (1 n)
  show ?case
  proof (cases "n < 10")
    case True
    with 1(2) show ?thesis by (simp add: digits_of_small digit_char_eq_0)
  next
    case False
    hence "0 < n div 10" by simp
    from 1(1) [OF False this] False show ?thesis
      by (simp add: digits_of_step)
  qed
qed

lemma digits_of_0 [simp]: "digits_of 0 = ''0''"
  by (simp add: digits_of_small digit_char_def)

end
