(* ===== verification/JS_Number_Exact.thy ===== *)
theory JS_Number_Exact
  imports JS_Number
begin

text \<open>
  What the arithmetic of \<open>JS_Number\<close> computes, read through \<open>value_of\<close> as
  real numbers: the rounding depends on the fraction only, it leaves a value
  that is a double unchanged, and its finite result is a double nearest to
  the fraction, so each operator returns a nearest double and the exact real
  result whenever that result is a double. Integers below \<open>2\<^sup>5\<^sup>3\<close> in
  magnitude are doubles, which makes integer arithmetic within that range
  exact; and the normal form is canonical, so two doubles with the same
  nonzero value are the same term.
\<close>

section \<open>Representable reals\<close>

text \<open>A real is representable when it is the value of a finite double.\<close>

definition representable :: "real \<Rightarrow> bool" where
  "representable r \<longleftrightarrow> (\<exists>z. is_double z \<and> value_of z = Some r)"


text \<open>
  The specification of rounding: \<open>rounds_to v x\<close> says that \<open>x\<close> is what the
  real \<open>v\<close> rounds to, a zero of either sign for \<open>v = 0\<close> and the rounding of
  any fraction that equals \<open>v\<close> otherwise.
\<close>

definition rounds_to :: "real \<Rightarrow> number \<Rightarrow> bool" where
  "rounds_to v x \<longleftrightarrow>
     (v = 0 \<and> (\<exists>z. x = Fin z 0 0)) \<or>
     (\<exists>s p q. 0 < p \<and> 0 < q \<and> v = real_of_int (signed s p) / real_of_int q \<and>
        x = round_frac s p q)"

section \<open>Rounding depends on the fraction only\<close>

lemma round_half_even_scale:
  assumes "0 < d" "0 < c"
  shows "round_half_even (n * c) (d * c) = round_half_even n d"
proof -
  have e: "(n * c) div (d * c) = n div d" "(n * c) mod (d * c) = n mod d * c"
    using assms by simp_all
  have c: "(2 * (n mod d * c) < d * c) = (2 * (n mod d) < d)"
          "(d * c < 2 * (n mod d * c)) = (d < 2 * (n mod d))"
    using assms(2) mult_less_cancel_right_pos [of c "2 * (n mod d)" d]
      mult_less_cancel_right_pos [of c d "2 * (n mod d)"]
    by (simp_all add: mult_ac)
  show ?thesis
    by (simp only: round_half_even_def Let_def e c)
qed

lemma round_half_even_cong:
  assumes "0 < d" "0 < d'" "n * d' = n' * d"
  shows "round_half_even n d = round_half_even n' d'"
proof -
  have "round_half_even n d = round_half_even (n * d') (d * d')"
    using assms(1,2) by (simp only: round_half_even_scale)
  also have "\<dots> = round_half_even (n' * d) (d' * d)"
    by (simp only: assms(3) mult.commute [of d d'])
  also have "\<dots> = round_half_even n' d'"
    using assms(1,2) by (simp only: round_half_even_scale)
  finally show ?thesis .
qed

lemma ratio_cong:
  assumes "0 < q" "0 < q'" "p * q' = p' * q"
  shows "real_of_int p / real_of_int q = real_of_int p' / real_of_int q'"
proof -
  have "real_of_int (p * q') = real_of_int (p' * q)" using assms(3) by simp
  thus ?thesis using assms(1,2) by (simp add: field_simps)
qed

lemma floor_log2_cong:
  assumes "0 < p" "0 < q" "0 < p'" "0 < q'" "p * q' = p' * q"
  shows "floor_log2 p q = floor_log2 p' q'"
  using floor_log2_bounds [OF assms(3,4)] ratio_cong [OF assms(2,4,5)]
  by (intro floor_log2_unique assms) simp_all

lemma round_frac_cong:
  assumes "0 < p" "0 < q" "0 < p'" "0 < q'" "p * q' = p' * q"
  shows "round_frac s p q = round_frac s p' q'"
proof -
  define k where "k = max (floor_log2 p q - 52) (- 1074)"
  define m where "m = round_half_even (p * 2 ^ nat (- k)) (q * 2 ^ nat k)"
  have k: "k = max (floor_log2 p' q' - 52) (- 1074)"
    by (simp add: k_def floor_log2_cong [OF assms])
  have "p * 2 ^ nat (- k) * (q' * 2 ^ nat k) = p' * 2 ^ nat (- k) * (q * 2 ^ nat k)"
    using assms(5) by (simp add: mult_ac)
  hence m: "m = round_half_even (p' * 2 ^ nat (- k)) (q' * 2 ^ nat k)"
    unfolding m_def using assms by (intro round_half_even_cong) simp_all
  show ?thesis
    by (simp only: round_frac_pos [OF assms(1) k_def m_def] round_frac_pos [OF assms(3) k m])
qed


section \<open>A double is its own rounding\<close>

lemma nat_exponent_split:
  "k \<le> e \<Longrightarrow> nat e + nat (- k) = nat (e - k) + (nat (- e) + nat k)"
  by linarith

lemma bitlen_le_53: "0 < m \<Longrightarrow> m < 2 ^ 53 \<Longrightarrow> bitlen m \<le> 53"
  by (simp add: bitlen_le_iff_power)

lemma round_frac_double:
  assumes "is_double (Fin s m e)" "0 < m"
  shows "round_frac t (m * 2 ^ nat e) (2 ^ nat (- e)) = Fin t m e"
proof -
  from assms have d: "odd m" "m < 2 ^ 53" "- 1074 \<le> e" "bitlen m + e \<le> 1024"
    by (auto simp: is_double_def)
  let ?p = "m * 2 ^ nat e" and ?q = "(2::int) ^ nat (- e)"
  define k where "k = max (bitlen m + e - 53) (- 1074)"
  define j where "j = nat (e - k)"
  have b: "bitlen m \<le> 53" using assms(2) d(2) by (rule bitlen_le_53)
  hence ke: "k \<le> e" "k \<le> 971" using d by (simp_all add: k_def)
  have ratio: "real_of_int ?p / real_of_int ?q = real_of_int m * 2 powi e"
    by (simp add: powi_split)
  have "floor_log2 ?p ?q = bitlen m - 1 + e"
  proof (rule floor_log2_unique)
    show "2 powi (bitlen m - 1 + e) \<le> real_of_int ?p / real_of_int ?q"
      unfolding ratio using bitlen_powi(1) [OF assms(2)] by (simp add: power_int_add)
    show "real_of_int ?p / real_of_int ?q < 2 powi (bitlen m - 1 + e + 1)"
      unfolding ratio using bitlen_powi(2) [OF assms(2)] by (simp add: power_int_add)
  qed (use assms(2) in simp_all)
  hence k: "k = max (floor_log2 ?p ?q - 52) (- 1074)"
    by (simp add: k_def)
  have "?p * 2 ^ nat (- k) = m * 2 ^ j * (?q * 2 ^ nat k)"
    using nat_exponent_split [OF ke(1)] by (simp add: j_def power_add [symmetric] mult.assoc)
  hence m: "m * 2 ^ j = round_half_even (?p * 2 ^ nat (- k)) (?q * 2 ^ nat k)"
    by (simp only: round_half_even_exact zero_less_mult_iff zero_less_power zero_less_numeral
        simp_thms)
  have "bitlen (m * 2 ^ j) \<le> 53" if "k = 971"
    using that d(4) assms(2) b ke(1) by (simp add: bitlen_pow2 j_def)
  hence "m * 2 ^ j < 2 ^ 53" if "k = 971"
    using that by (simp add: bitlen_le_iff_power)
  hence ok: "\<not> (971 < k \<or> (k = 971 \<and> 2 ^ 53 \<le> m * 2 ^ j))"
    using ke(2) by auto
  have "0 < ?p" using assms(2) by simp
  from round_frac_pos [OF this k m, of t] ok
  show ?thesis
    using ke(1) by (simp only: if_False strip_zeros_shift [OF assms(2) d(1)] prod.case j_def)
      simp
qed

lemma powi2_pos [simp]: "(0::real) < 2 powi k" "\<not> (2::real) powi k < 0" "(2::real) powi k \<noteq> 0"
  by (simp_all add: power_int_def not_less)

lemma dyadic_ratio_iff:
  assumes "0 < q"
  shows "(p * 2 ^ nat (- g) = n * 2 ^ nat g * q) =
         (real_of_int p / real_of_int q = real_of_int n * 2 powi g)"
proof -
  have "(p * 2 ^ nat (- g) = n * 2 ^ nat g * q) =
        (real_of_int (p * 2 ^ nat (- g)) = real_of_int (n * 2 ^ nat g * q))"
    by (simp only: of_int_eq_iff)
  also have "\<dots> = (real_of_int p / real_of_int q = real_of_int n * 2 powi g)"
    using assms by (simp add: powi_split field_simps)
  finally show ?thesis .
qed

lemma round_frac_representable:
  assumes "0 < p" "0 < q" "is_double (Fin s n g)"
    and "real_of_int p / real_of_int q = real_of_int n * 2 powi g"
  shows "round_frac t p q = Fin t n g"
proof -
  have "0 < real_of_int p / real_of_int q" using assms(1,2) by simp
  hence n: "0 < n" unfolding assms(4) by (simp add: zero_less_mult_iff)
  have "p * 2 ^ nat (- g) = n * 2 ^ nat g * q"
    using assms(2,4) by (simp only: dyadic_ratio_iff)
  hence "round_frac t p q = round_frac t (n * 2 ^ nat g) (2 ^ nat (- g))"
    using assms(1,2) n by (intro round_frac_cong) simp_all
  thus ?thesis
    by (simp only: round_frac_double [OF assms(3) n])
qed

lemma value_of_Fin [simp]:
  "value_of (Fin s m e) = Some (real_of_int (signed s m) * 2 powi e)"
  by (simp add: value_of_def)

lemma value_of_simps [simp]: "value_of NaN = None" "value_of (Infty s) = None"
  by (simp_all add: value_of_def)

lemma value_of_SomeE:
  assumes "value_of x = Some r"
  obtains s m e where "x = Fin s m e" "r = real_of_int (signed s m) * 2 powi e"
  using assms by (cases x) auto

lemma is_zero_value: "value_of x = Some b \<Longrightarrow> is_zero x \<longleftrightarrow> b = 0"
  by (erule value_of_SomeE) (auto simp: signed_def)

lemma dyadic_sign:
  assumes "real_of_int v * 2 powi k = real_of_int (signed s n) * 2 powi g" "0 < n"
  shows "s = (v < 0)" "real_of_int \<bar>v\<bar> * 2 powi k = real_of_int n * 2 powi g"
proof -
  have pos: "(0::real) < 2 powi k" "(0::real) < 2 powi g" by simp_all
  show "s = (v < 0)"
  proof (cases s)
    case True
    with assms have "real_of_int v * 2 powi k < 0"
      using pos by (simp add: signed_def mult_neg_pos)
    with pos(1) have "real_of_int v < 0" by (simp add: mult_less_0_iff)
    with True show ?thesis by simp
  next
    case False
    with assms have "0 < real_of_int v * 2 powi k"
      using pos by (simp add: signed_def)
    with pos(1) have "0 < real_of_int v" by (simp add: zero_less_mult_iff)
    with False show ?thesis by simp
  qed
  with assms(1) show "real_of_int \<bar>v\<bar> * 2 powi k = real_of_int n * 2 powi g"
    by (cases s) (simp_all add: signed_def)
qed

section \<open>Signs, sums and representable values\<close>

lemma signed_simps [simp]:
  "signed s 0 = 0" "signed False m = m" "signed True m = - m"
  "signed s m * c = signed s (m * c)"
  by (simp_all add: signed_def)

lemma signed_mult: "signed s m * signed t n = signed (s \<noteq> t) (m * n)"
  by (simp add: signed_def)

lemma signed_eq_0_iff [simp]: "(signed s m = 0) = (m = 0)"
  by (simp add: signed_def)

lemma representableE:
  assumes "representable r"
  obtains u n g where "is_double (Fin u n g)" "r = real_of_int (signed u n) * 2 powi g"
  using assms unfolding representable_def by (metis value_of_SomeE)

lemma round_frac_exact:
  assumes "0 \<le> p" "0 < q" "representable (real_of_int (signed t p) / real_of_int q)"
  shows "value_of (round_frac t p q) = Some (real_of_int (signed t p) / real_of_int q)"
proof (cases "p = 0")
  case True
  thus ?thesis by (simp add: round_frac_def)
next
  case False
  with assms(1) have p: "0 < p" by simp
  from assms(3) obtain u n g where z: "is_double (Fin u n g)"
    "real_of_int (signed t p) / real_of_int q = real_of_int (signed u n) * 2 powi g"
    by (rule representableE)
  have "real_of_int (signed t p) / real_of_int q \<noteq> 0" using p assms(2) by simp
  hence "n \<noteq> 0" unfolding z(2) by auto
  with z(1) have n: "0 < n" by (auto simp: is_double_def)
  have "real_of_int (signed t p) * 2 powi 0 = real_of_int (signed u (n * q)) * 2 powi g"
    using z(2) assms(2) by (simp add: field_simps signed_def split: if_splits)
  from dyadic_sign [OF this] n assms(2) p
  have "u = t" "real_of_int p = real_of_int (n * q) * 2 powi g"
    by (simp_all add: signed_def split: if_splits)
  hence "real_of_int p / real_of_int q = real_of_int n * 2 powi g"
    using assms(2) by (simp add: field_simps)
  from round_frac_representable [OF p assms(2) z(1) this, of t] z(2) \<open>u = t\<close>
  show ?thesis by simp
qed

lemma sum_scaled:
  assumes "k = min e f"
  shows "real_of_int (x * 2 ^ nat (e - k) + y * 2 ^ nat (f - k)) * 2 powi k =
         real_of_int x * 2 powi e + real_of_int y * 2 powi f"
proof -
  have "(2::real) ^ nat (e - k) = 2 powi (e - k)" "(2::real) ^ nat (f - k) = 2 powi (f - k)"
    using assms by (simp_all add: power_int_def)
  moreover have "(2::real) powi (e - k) * 2 powi k = 2 powi e"
                "(2::real) powi (f - k) * 2 powi k = 2 powi f"
    by (simp_all add: power_int_add [symmetric])
  ultimately show ?thesis
    by (simp add: algebra_simps)
qed

lemma representable_uminus: "representable (- r) = representable r"
proof -
  have "representable (- r)" if "representable r" for r
  proof -
    from that obtain u n g where "is_double (Fin u n g)" "r = real_of_int (signed u n) * 2 powi g"
      by (rule representableE)
    hence "is_double (Fin (\<not> u) n g)" "value_of (Fin (\<not> u) n g) = Some (- r)"
      by (simp_all add: is_double_def signed_def)
    thus ?thesis unfolding representable_def by blast
  qed
  from this [of r] this [of "- r"] show ?thesis by auto
qed

lemma value_of_unaryMinus:
  "value_of x = Some a \<Longrightarrow> value_of (number_unaryMinus x) = Some (- a)"
  by (cases x) (auto simp: signed_def)

section \<open>The finite result and its distance from the exact value\<close>

lemma round_frac_value:
  assumes "0 < p" "0 < q" "k = max (floor_log2 p q - 52) (- 1074)"
    "m = round_half_even (p * 2 ^ nat (- k)) (q * 2 ^ nat k)"
  shows "round_frac s p q = Infty s \<or>
         value_of (round_frac s p q) = Some (real_of_int (signed s m) * 2 powi k)"
proof (cases "971 < k \<or> (k = 971 \<and> 2 ^ 53 \<le> m)")
  case True
  thus ?thesis by (simp only: round_frac_pos [OF assms(1,3,4)] if_True simp_thms)
next
  case False
  have "0 \<le> m"
    unfolding assms(4) using assms(1,2) by (intro round_half_even_ge) simp_all
  show ?thesis
  proof (cases "m = 0")
    case True
    with False show ?thesis
      by (simp only: round_frac_pos [OF assms(1,3,4)] if_False) (simp add: strip_zeros_nonpos)
  next
    case nz: False
    with \<open>0 \<le> m\<close> have "0 < m" by simp
    from strip_zeros_pos [OF this, of k] obtain m' j where
      m': "m = m' * 2 ^ j" "strip_zeros m k = (m', k + int j)" by metis
    have "real_of_int (signed s m') * 2 powi (k + int j) = real_of_int (signed s m) * 2 powi k"
      by (cases s) (simp_all add: m'(1) power_int_add)
    with False show ?thesis
      by (simp only: round_frac_pos [OF assms(1,3,4)] if_False m'(2) prod.case value_of_Fin)
        simp
  qed
qed

lemma nearest_real:
  fixes m n d :: int
  assumes "0 < d" "\<bar>2 * (m * d - n)\<bar> \<le> d"
  shows "\<bar>real_of_int m - real_of_int n / real_of_int d\<bar> \<le> 1 / 2"
proof -
  have "real_of_int m - real_of_int n / real_of_int d = real_of_int (m * d - n) / real_of_int d"
    using assms(1) by (simp add: field_simps)
  hence "\<bar>real_of_int m - real_of_int n / real_of_int d\<bar> =
         real_of_int \<bar>m * d - n\<bar> / real_of_int d"
    using assms(1) by simp
  moreover have "2 * real_of_int \<bar>m * d - n\<bar> \<le> real_of_int d"
    using assms(2) by (simp only: abs_mult flip: of_int_le_iff)
  ultimately show ?thesis
    using assms(1) by (simp add: field_simps)
qed

text \<open>Half an ulp: the distance of the rounded value from the exact fraction.\<close>

lemma round_frac_error:
  assumes "0 < p" "0 < q" "k = max (floor_log2 p q - 52) (- 1074)"
    and "value_of (round_frac s p q) = Some r"
  shows "\<bar>r - real_of_int (signed s p) / real_of_int q\<bar> \<le> 2 powi (k - 1)"
proof -
  define m where "m = round_half_even (p * 2 ^ nat (- k)) (q * 2 ^ nat k)"
  let ?n = "p * 2 ^ nat (- k)" and ?d = "q * 2 ^ nat k"
  from round_frac_value [OF assms(1-3) m_def, of s] assms(4)
  have r: "r = real_of_int (signed s m) * 2 powi k" by auto
  have d: "0 < ?d" using assms(2) by simp
  have "\<bar>real_of_int m - real_of_int ?n / real_of_int ?d\<bar> \<le> 1 / 2"
    unfolding m_def using d round_half_even_nearest [OF d, of ?n] by (rule nearest_real)
  moreover have "real_of_int ?n / real_of_int ?d = real_of_int p / real_of_int q / 2 powi k"
    by (simp add: powi_split)
  ultimately have "\<bar>real_of_int m - real_of_int p / real_of_int q / 2 powi k\<bar> * 2 powi k
      \<le> 1 / 2 * 2 powi k"
    by (intro mult_right_mono) simp_all
  moreover have "real_of_int m * 2 powi k - real_of_int p / real_of_int q =
      (real_of_int m - real_of_int p / real_of_int q / 2 powi k) * 2 powi k"
    by (simp add: field_simps)
  hence "\<bar>real_of_int m * 2 powi k - real_of_int p / real_of_int q\<bar> =
      \<bar>real_of_int m - real_of_int p / real_of_int q / 2 powi k\<bar> * 2 powi k"
    by (simp only: abs_mult) simp
  moreover have "1 / 2 * (2::real) powi k = 2 powi (k - 1)"
    by (simp add: power_int_diff)
  ultimately have "\<bar>real_of_int m * 2 powi k - real_of_int p / real_of_int q\<bar> \<le> 2 powi (k - 1)"
    by (simp only:)
  moreover have "r - real_of_int (signed s p) / real_of_int q =
      (if s then - 1 else 1) * (real_of_int m * 2 powi k - real_of_int p / real_of_int q)"
    unfolding r by (cases s) simp_all
  hence "\<bar>r - real_of_int (signed s p) / real_of_int q\<bar> =
      \<bar>real_of_int m * 2 powi k - real_of_int p / real_of_int q\<bar>"
    by (simp only: abs_mult) simp
  ultimately show ?thesis by simp
qed

section \<open>The finite result is a nearest double\<close>

lemma nearest_int:
  fixes m j :: int and t :: real
  assumes "\<bar>real_of_int m - t\<bar> \<le> 1 / 2"
  shows "\<bar>real_of_int m - t\<bar> \<le> \<bar>real_of_int j - t\<bar>"
proof (cases "j = m")
  case False
  hence "1 \<le> \<bar>j - m\<bar>" by simp
  hence "1 \<le> \<bar>real_of_int j - real_of_int m\<bar>"
    by (metis of_int_1_le_iff of_int_abs of_int_diff)
  with assms show ?thesis by linarith
qed simp

lemma round_frac_nearest_grid:
  assumes "0 < q" "m = round_half_even (p * 2 ^ nat (- k)) (q * 2 ^ nat k)"
  shows "\<bar>real_of_int m * 2 powi k - real_of_int p / real_of_int q\<bar> \<le>
         \<bar>real_of_int j * 2 powi k - real_of_int p / real_of_int q\<bar>"
proof -
  let ?n = "p * 2 ^ nat (- k)" and ?d = "q * 2 ^ nat k"
  let ?t = "real_of_int p / real_of_int q / 2 powi k"
  have d: "0 < ?d" using assms(1) by simp
  have "\<bar>real_of_int m - real_of_int ?n / real_of_int ?d\<bar> \<le> 1 / 2"
    unfolding assms(2) using d round_half_even_nearest [OF d, of ?n] by (rule nearest_real)
  moreover have "real_of_int ?n / real_of_int ?d = ?t"
    by (simp add: powi_split)
  ultimately have "\<bar>real_of_int m - ?t\<bar> \<le> \<bar>real_of_int j - ?t\<bar>"
    by (intro nearest_int) simp
  hence a: "\<bar>real_of_int m - ?t\<bar> * 2 powi k \<le> \<bar>real_of_int j - ?t\<bar> * 2 powi k"
    by (intro mult_right_mono) simp_all
  have b: "\<bar>real_of_int i - ?t\<bar> * 2 powi k =
      \<bar>real_of_int i * 2 powi k - real_of_int p / real_of_int q\<bar>" for i
  proof -
    have "real_of_int i * 2 powi k - real_of_int p / real_of_int q =
        (real_of_int i - ?t) * 2 powi k"
      by (simp add: field_simps)
    thus ?thesis by (simp only: abs_mult) simp
  qed
  from a show ?thesis unfolding b .
qed

lemma round_frac_nearest_pos:
  assumes "0 < p" "0 < q" "k = max (floor_log2 p q - 52) (- 1074)"
    "m = round_half_even (p * 2 ^ nat (- k)) (q * 2 ^ nat k)"
    and "0 \<le> n" "n < 2 ^ 53" "- 1074 \<le> f"
  shows "\<bar>real_of_int m * 2 powi k - real_of_int p / real_of_int q\<bar> \<le>
         \<bar>real_of_int n * 2 powi f - real_of_int p / real_of_int q\<bar>"
proof (cases "k \<le> f")
  case True
  have "(2::real) ^ nat (f - k) = 2 powi (f - k)"
    using True by (simp add: power_int_def)
  hence "real_of_int (n * 2 ^ nat (f - k)) * 2 powi k = real_of_int n * 2 powi f"
    by (simp add: power_int_diff)
  with round_frac_nearest_grid [OF assms(2,4), of "n * 2 ^ nat (f - k)"] show ?thesis
    by (simp only:)
next
  case False
  let ?a = "real_of_int p / real_of_int q"
  define e where "e = floor_log2 p q"
  from False assms(3,7) have k: "k = e - 52" "f + 53 \<le> e" by (simp_all add: e_def)
  have a: "2 powi e \<le> ?a"
    unfolding e_def by (rule floor_log2_bounds(1) [OF assms(1,2)])
  have "real_of_int n < 2 ^ 53" using assms(6) by simp
  hence "real_of_int n * 2 powi f < 2 ^ 53 * 2 powi f"
    by (intro mult_strict_right_mono) simp_all
  also have "\<dots> = 2 powi (f + 53)" by (simp add: power_int_add)
  also have "\<dots> \<le> 2 powi e" using k(2) by (intro power_int_increasing) simp_all
  finally have n: "real_of_int n * 2 powi f < 2 powi e" .
  have "real_of_int (2 ^ 52) * 2 powi k = 2 powi e"
    unfolding k(1) by (simp add: power_int_diff)
  with round_frac_nearest_grid [OF assms(2,4), of "2 ^ 52"]
  have "\<bar>real_of_int m * 2 powi k - ?a\<bar> \<le> \<bar>2 powi e - ?a\<bar>" by (simp only:)
  with a n show ?thesis by linarith
qed

section \<open>Rounding as a specification\<close>

lemma rounds_to_zero: "rounds_to 0 (Fin z 0 0)"
  by (auto simp: rounds_to_def)

lemma rounds_to_frac:
  assumes "0 \<le> p" "0 < q"
  shows "rounds_to (real_of_int (signed s p) / real_of_int q) (round_frac s p q)"
proof (cases "p = 0")
  case True
  thus ?thesis by (simp add: round_frac_def rounds_to_zero)
next
  case False
  with assms show ?thesis unfolding rounds_to_def by (intro disjI2 exI [of _ s] exI [of _ p] exI [of _ q]) simp
qed

lemma rounds_to_cases:
  assumes "rounds_to v x"
  obtains (zero) z where "v = 0" "x = Fin z 0 0"
  | (frac) s p q where "0 < p" "0 < q" "v = real_of_int (signed s p) / real_of_int q"
      "x = round_frac s p q"
  using assms unfolding rounds_to_def by blast

lemma rounds_to_is_double: "rounds_to v x \<Longrightarrow> is_double x"
  by (erule rounds_to_cases) (simp_all add: round_frac_is_double)

lemma rounds_to_exact:
  assumes "rounds_to v x" "representable v"
  shows "value_of x = Some v"
  using assms by (cases rule: rounds_to_cases) (simp_all add: round_frac_exact)

lemma floor_log2_le_abs:
  assumes "0 < p" "0 < q"
  shows "2 powi (max (floor_log2 p q - 52) (- 1074) - 1) \<le>
         max (real_of_int p / real_of_int q * 2 powi (- 53)) (2 powi (- 1075))"
proof (cases "floor_log2 p q - 52 \<le> - 1074")
  case True
  thus ?thesis by (simp add: max_def)
next
  case False
  hence "max (floor_log2 p q - 52) (- 1074) - 1 = floor_log2 p q + (- 53)" by simp
  hence "(2::real) powi (max (floor_log2 p q - 52) (- 1074) - 1) =
         2 powi (floor_log2 p q + (- 53))"
    by (simp only:)
  also have "\<dots> = 2 powi floor_log2 p q * 2 powi (- 53)"
    by (rule power_int_add) simp
  also have "\<dots> \<le> real_of_int p / real_of_int q * 2 powi (- 53)"
    using floor_log2_bounds(1) [OF assms] by (intro mult_right_mono) simp_all
  finally show ?thesis by simp
qed

lemma rounds_to_error:
  assumes "rounds_to v x" "value_of x = Some r"
  shows "\<bar>r - v\<bar> \<le> max (\<bar>v\<bar> * 2 powi (- 53)) (2 powi (- 1075))"
  using assms(1)
proof (cases rule: rounds_to_cases)
  case (zero z)
  with assms(2) show ?thesis by simp
next
  case (frac s p q)
  have "\<bar>v\<bar> = real_of_int p / real_of_int q"
    using frac(1,2) by (cases s) (simp_all add: frac(3))
  with round_frac_error [OF frac(1,2) refl, of s r] floor_log2_le_abs [OF frac(1,2)]
    assms(2) frac(3,4)
  show ?thesis by simp
qed

lemma rounds_to_nearest:
  assumes "rounds_to v x" "value_of x = Some r" "is_double y" "value_of y = Some w"
  shows "\<bar>r - v\<bar> \<le> \<bar>w - v\<bar>"
  using assms(1)
proof (cases rule: rounds_to_cases)
  case (zero z)
  with assms(2) show ?thesis by simp
next
  case (frac s p q)
  let ?a = "real_of_int p / real_of_int q"
  define k where "k = max (floor_log2 p q - 52) (- 1074)"
  define m where "m = round_half_even (p * 2 ^ nat (- k)) (q * 2 ^ nat k)"
  from round_frac_value [OF frac(1,2) k_def m_def, of s] assms(2) frac(4)
  have r: "r = real_of_int (signed s m) * 2 powi k" by auto
  from assms(4) obtain t n f where y: "y = Fin t n f" "w = real_of_int (signed t n) * 2 powi f"
    by (rule value_of_SomeE)
  from assms(3) have n: "0 \<le> n" "n < 2 ^ 53" "- 1074 \<le> f"
    unfolding y(1) by (auto simp: is_double_def)
  have "r - v = (if s then - 1 else 1) * (real_of_int m * 2 powi k - ?a)"
    unfolding r frac(3) by (cases s) simp_all
  hence "\<bar>r - v\<bar> = \<bar>real_of_int m * 2 powi k - ?a\<bar>"
    by (simp only: abs_mult) simp
  also have "\<dots> \<le> \<bar>real_of_int n * 2 powi f - ?a\<bar>"
    using frac(1,2) k_def m_def n by (rule round_frac_nearest_pos)
  also have "\<dots> = \<bar>\<bar>w\<bar> - \<bar>v\<bar>\<bar>"
    using n(1) frac(1,2) unfolding y(2) frac(3) by (cases s; cases t) (simp_all add: abs_mult)
  also have "\<dots> \<le> \<bar>w - v\<bar>" by (rule abs_triangle_ineq3)
  finally show ?thesis .
qed

section \<open>The operators round the exact result\<close>

lemma rounds_to_dyadic: "rounds_to (real_of_int v * 2 powi k) (round_dyadic z v k)"
proof (cases "v = 0")
  case True
  thus ?thesis by (simp add: round_dyadic_def rounds_to_zero)
next
  case False
  have "real_of_int v * 2 powi k =
        real_of_int (signed (v < 0) (\<bar>v\<bar> * 2 ^ nat k)) / real_of_int (2 ^ nat (- k))"
    by (simp add: powi_split signed_def)
  moreover have "rounds_to (real_of_int (signed (v < 0) (\<bar>v\<bar> * 2 ^ nat k)) /
      real_of_int (2 ^ nat (- k))) (round_frac (v < 0) (\<bar>v\<bar> * 2 ^ nat k) (2 ^ nat (- k)))"
    by (rule rounds_to_frac) simp_all
  ultimately show ?thesis
    using False by (simp only: round_dyadic_def if_False)
qed

lemma number_add_rounds:
  assumes "value_of x = Some a" "value_of y = Some b"
  shows "rounds_to (a + b) (number_add x y)"
proof -
  from assms(1) obtain s m e where x: "x = Fin s m e" "a = real_of_int (signed s m) * 2 powi e"
    by (rule value_of_SomeE)
  from assms(2) obtain t n f where y: "y = Fin t n f" "b = real_of_int (signed t n) * 2 powi f"
    by (rule value_of_SomeE)
  define k where "k = min e f"
  define v where "v = signed s m * 2 ^ nat (e - k) + signed t n * 2 ^ nat (f - k)"
  have "real_of_int v * 2 powi k = a + b"
    unfolding v_def x(2) y(2) by (rule sum_scaled [OF k_def])
  with rounds_to_dyadic [of v k "s \<and> t"] show ?thesis
    unfolding x(1) y(1) number_add.simps Let_def k_def [symmetric] v_def by simp
qed

lemma number_subtract_rounds:
  assumes "value_of x = Some a" "value_of y = Some b"
  shows "rounds_to (a - b) (number_subtract x y)"
  using number_add_rounds [OF assms(1) value_of_unaryMinus [OF assms(2)]]
  by (simp add: number_subtract_def)

lemma number_multiply_rounds:
  assumes "is_double x" "is_double y" "value_of x = Some a" "value_of y = Some b"
  shows "rounds_to (a * b) (number_multiply x y)"
proof -
  from assms(3) obtain s m e where x: "x = Fin s m e" "a = real_of_int (signed s m) * 2 powi e"
    by (rule value_of_SomeE)
  from assms(4) obtain t n f where y: "y = Fin t n f" "b = real_of_int (signed t n) * 2 powi f"
    by (rule value_of_SomeE)
  let ?p = "m * n * 2 ^ nat (e + f)" and ?q = "(2::int) ^ nat (- (e + f))"
  have "0 \<le> m" "0 \<le> n" using assms(1,2) x(1) y(1) by (auto dest: is_double_nonneg)
  hence p: "0 \<le> ?p" by simp
  have "a * b = real_of_int (signed (s \<noteq> t) (m * n)) * 2 powi (e + f)"
    unfolding x(2) y(2) by (cases s; cases t; simp add: power_int_add)
  hence "a * b = real_of_int (signed (s \<noteq> t) ?p) / real_of_int ?q"
    by (simp add: powi_split flip: signed_simps(4))
  with rounds_to_frac [OF p, of ?q "s \<noteq> t"] show ?thesis
    unfolding x(1) y(1) number_multiply.simps by simp
qed

lemma number_divide_rounds:
  assumes "is_double x" "is_double y" "value_of x = Some a" "value_of y = Some b" "b \<noteq> 0"
  shows "rounds_to (a / b) (number_divide x y)"
proof -
  from assms(3) obtain s m e where x: "x = Fin s m e" "a = real_of_int (signed s m) * 2 powi e"
    by (rule value_of_SomeE)
  from assms(4) obtain t n f where y: "y = Fin t n f" "b = real_of_int (signed t n) * 2 powi f"
    by (rule value_of_SomeE)
  let ?p = "m * 2 ^ nat (e - f)" and ?q = "n * 2 ^ nat (f - e)"
  have "0 \<le> m" "0 \<le> n" using assms(1,2) x(1) y(1) by (auto dest: is_double_nonneg)
  moreover have nz: "n \<noteq> 0" using assms(5) y(2) by auto
  ultimately have pq: "0 \<le> ?p" "0 < ?q" by simp_all
  have "(2::real) powi e / 2 powi f = 2 ^ nat (e - f) / 2 ^ nat (f - e)"
    by (simp add: power_int_diff [symmetric] powi_split [of "e - f"])
  hence "a / b = real_of_int (signed (s \<noteq> t) ?p) / real_of_int ?q"
    unfolding x(2) y(2) using nz by (simp add: signed_def field_simps)
  with rounds_to_frac [OF pq, of "s \<noteq> t"] nz show ?thesis
    unfolding x(1) y(1) by simp
qed

lemmas number_add_exact = rounds_to_exact [OF number_add_rounds]
lemmas number_subtract_exact = rounds_to_exact [OF number_subtract_rounds]
lemmas number_multiply_exact = rounds_to_exact [OF number_multiply_rounds]
lemmas number_divide_exact = rounds_to_exact [OF number_divide_rounds]

lemmas round_dyadic_representable = rounds_to_exact [OF rounds_to_dyadic]

section \<open>Integers and the canonical form\<close>

lemma representable_scaled:
  assumes "\<bar>i\<bar> < 2 ^ 53" "- 1074 \<le> k" "bitlen \<bar>i\<bar> + k \<le> 1024"
  shows "representable (real_of_int i * 2 powi k)"
proof (cases "i = 0")
  case True
  have "is_double (Fin False 0 0)" "value_of (Fin False 0 0) = Some 0" by simp_all
  with True show ?thesis unfolding representable_def by (metis mult_zero_left of_int_0)
next
  case False
  hence "0 < \<bar>i\<bar>" by simp
  from strip_zeros_pos [OF this, of k] obtain m j where
    m: "odd m" "0 < m" "\<bar>i\<bar> = m * 2 ^ j" by metis
  have "m \<le> \<bar>i\<bar>" using m(2,3) by simp
  moreover have "bitlen \<bar>i\<bar> = bitlen m + int j" using m(2,3) by (simp add: bitlen_pow2)
  ultimately have d: "is_double (Fin (i < 0) m (k + int j))"
    using assms m(1,2) by (simp add: is_double_def)
  define u where "u = (i < 0)"
  have "i = signed u m * 2 ^ j"
    using m(3) by (auto simp: u_def signed_def)
  hence "real_of_int i = real_of_int (signed u m) * 2 ^ j"
    by (simp del: signed_simps)
  hence "real_of_int i * 2 powi k = real_of_int (signed u m) * 2 powi (k + int j)"
    by (simp add: power_int_add del: signed_simps)
  with d show ?thesis
    unfolding representable_def u_def by (metis value_of_Fin)
qed

lemma representable_int: "\<bar>i\<bar> < 2 ^ 53 \<Longrightarrow> representable (real_of_int i)"
  using representable_scaled [of i 0] bitlen_le_53 [of "\<bar>i\<bar>"] bitlen_zero
  by (cases "i = 0") auto

lemma number_of_int_value:
  "\<bar>i\<bar> < 2 ^ 53 \<Longrightarrow> value_of (number_of_int i) = Some (real_of_int i)"
  using round_dyadic_representable [of i 0 False] by (simp add: number_of_int_def representable_int)

text \<open>The normal form is canonical: a nonzero real is the value of at most one double.\<close>

lemma dyadic_le:
  assumes "real_of_int m * 2 powi e = real_of_int n * 2 powi f" "odd n" "0 < m"
  shows "e \<le> f"
proof (rule ccontr)
  assume "\<not> e \<le> f"
  hence "0 < e - f" by simp
  have "real_of_int m * 2 powi e = real_of_int m * 2 powi (e - f) * 2 powi f"
    by (simp add: power_int_diff)
  with assms(1) have "real_of_int n = real_of_int m * 2 powi (e - f)" by simp
  also have "\<dots> = real_of_int (m * 2 ^ nat (e - f))"
    using \<open>0 < e - f\<close> by (simp add: power_int_def)
  finally have "n = m * 2 ^ nat (e - f)" by (simp only: of_int_eq_iff)
  moreover have "even ((2::int) ^ nat (e - f))" using \<open>0 < e - f\<close> by simp
  ultimately show False using assms(2) by simp
qed

lemma double_canonical:
  assumes "is_double x" "is_double y" "value_of x = Some r" "value_of y = Some r" "r \<noteq> 0"
  shows "x = y"
proof -
  from assms(3) obtain s m e where x: "x = Fin s m e" "r = real_of_int (signed s m) * 2 powi e"
    by (rule value_of_SomeE)
  from assms(4) obtain t n f where y: "y = Fin t n f" "r = real_of_int (signed t n) * 2 powi f"
    by (rule value_of_SomeE)
  from assms(5) x(2) y(2) have "m \<noteq> 0" "n \<noteq> 0" by auto
  with assms(1,2) x(1) y(1) have mn: "0 < m" "odd m" "0 < n" "odd n"
    by (auto simp: is_double_def)
  have eq: "real_of_int (signed s m) * 2 powi e = real_of_int (signed t n) * 2 powi f"
    using x(2) y(2) by simp
  have "real_of_int (signed s m) * 2 powi e = real_of_int (signed t n) * 2 powi f"
    using x(2) y(2) by simp
  from dyadic_sign [OF this mn(3)] mn(1)
  have st: "t = s" and abs: "real_of_int m * 2 powi e = real_of_int n * 2 powi f"
    by (auto simp: signed_def split: if_splits)
  from dyadic_le [OF abs mn(4,1)] dyadic_le [OF abs [symmetric] mn(2,3)]
  have "e = f" by simp
  with abs have "m = n" by simp
  with st \<open>e = f\<close> show ?thesis by (simp add: x(1) y(1))
qed

section \<open>Exactness of the operators\<close>

text \<open>
  C6. The operators are correctly rounded. Whenever \<^verbatim>\<open>+\<close>, \<^verbatim>\<open>-\<close>, \<^verbatim>\<open>*\<close> or \<^verbatim>\<open>/\<close> on
  doubles with real values \<open>a\<close> and \<open>b\<close> returns a finite value \<open>r\<close>, no double is
  closer to the exact real result than \<open>r\<close> is: for every finite double with
  value \<open>w\<close>, the distance of \<open>r\<close> from the exact result is at most that of
  \<open>w\<close>. In particular a result that is itself a double is returned exactly.
\<close>

theorem operators_correctly_rounded:
  assumes "is_double x" "is_double y" "value_of x = Some a" "value_of y = Some b"
    and "is_double z" "value_of z = Some w"
  shows "(value_of (number_add x y) = Some r \<longrightarrow> \<bar>r - (a + b)\<bar> \<le> \<bar>w - (a + b)\<bar>) \<and>
         (value_of (number_subtract x y) = Some r \<longrightarrow> \<bar>r - (a - b)\<bar> \<le> \<bar>w - (a - b)\<bar>) \<and>
         (value_of (number_multiply x y) = Some r \<longrightarrow> \<bar>r - a * b\<bar> \<le> \<bar>w - a * b\<bar>) \<and>
         (b \<noteq> 0 \<and> value_of (number_divide x y) = Some r \<longrightarrow>
            \<bar>r - a / b\<bar> \<le> \<bar>w - a / b\<bar>)"
  using rounds_to_nearest [OF number_add_rounds [OF assms(3,4)] _ assms(5,6), of r]
    rounds_to_nearest [OF number_subtract_rounds [OF assms(3,4)] _ assms(5,6), of r]
    rounds_to_nearest [OF number_multiply_rounds [OF assms(1-4)] _ assms(5,6), of r]
    rounds_to_nearest [OF number_divide_rounds [OF assms(1-4)] _ assms(5,6), of r]
  by simp

theorem operators_correctly_rounded_witness:
  "\<bar>6004799503160661 * 2 powi (- 54) - 1 / 3\<bar> \<le>
     \<bar>3002399751580331 * 2 powi (- 53) - 1 / (3::real)\<bar>"
proof -
  have d: "is_double (Fin False 1 0)" "is_double (Fin False 3 0)"
    "is_double (Fin False 3002399751580331 (- 53))"
    by code_simp+
  have v: "value_of (Fin False 1 0) = Some 1" "value_of (Fin False 3 0) = Some 3"
    "value_of (Fin False 3002399751580331 (- 53)) = Some (3002399751580331 * 2 powi (- 53))"
    by simp_all
  have e: "number_divide (Fin False 1 0) (Fin False 3 0) = Fin False 6004799503160661 (- 54)"
    by code_simp
  from operators_correctly_rounded [OF d(1,2) v(1,2) d(3) v(3),
      of "6004799503160661 * 2 powi (- 54)"]
  show ?thesis unfolding e by simp
qed

text \<open>
  C16. The rounding error of an operator is at most half a unit in the last
  place. Whenever \<^verbatim>\<open>+\<close>, \<^verbatim>\<open>-\<close>, \<^verbatim>\<open>*\<close> or \<^verbatim>\<open>/\<close> on doubles with real values \<open>a\<close>
  and \<open>b\<close> returns a finite value \<open>r\<close>, then \<open>r\<close> differs from the exact real
  result \<open>v\<close> by at most \<open>|v| \<sqdot> 2\<^sup>-\<^sup>5\<^sup>3\<close>, or by at most \<open>2\<^sup>-\<^sup>1\<^sup>0\<^sup>7\<^sup>5\<close> in the
  subnormal range.
\<close>

theorem rounding_error_bound:
  assumes "is_double x" "is_double y" "value_of x = Some a" "value_of y = Some b"
  shows "(value_of (number_add x y) = Some r \<longrightarrow>
            \<bar>r - (a + b)\<bar> \<le> max (\<bar>a + b\<bar> * 2 powi (- 53)) (2 powi (- 1075))) \<and>
         (value_of (number_subtract x y) = Some r \<longrightarrow>
            \<bar>r - (a - b)\<bar> \<le> max (\<bar>a - b\<bar> * 2 powi (- 53)) (2 powi (- 1075))) \<and>
         (value_of (number_multiply x y) = Some r \<longrightarrow>
            \<bar>r - a * b\<bar> \<le> max (\<bar>a * b\<bar> * 2 powi (- 53)) (2 powi (- 1075))) \<and>
         (b \<noteq> 0 \<and> value_of (number_divide x y) = Some r \<longrightarrow>
            \<bar>r - a / b\<bar> \<le> max (\<bar>a / b\<bar> * 2 powi (- 53)) (2 powi (- 1075)))"
  using rounds_to_error [OF number_add_rounds [OF assms(3,4)], of r]
    rounds_to_error [OF number_subtract_rounds [OF assms(3,4)], of r]
    rounds_to_error [OF number_multiply_rounds [OF assms], of r]
    rounds_to_error [OF number_divide_rounds [OF assms], of r]
  by simp

theorem rounding_error_bound_witness:
  "\<bar>6004799503160661 * 2 powi (- 54) - 1 / 3\<bar> \<le>
     max (\<bar>1 / 3\<bar> * 2 powi (- 53)) ((2::real) powi (- 1075))"
proof -
  have d: "is_double (Fin False 1 0)" "is_double (Fin False 3 0)"
    by code_simp+
  have v: "value_of (Fin False 1 0) = Some 1" "value_of (Fin False 3 0) = Some 3"
    by simp_all
  have e: "number_divide (Fin False 1 0) (Fin False 3 0) = Fin False 6004799503160661 (- 54)"
    by code_simp
  from rounding_error_bound [OF d v, of "6004799503160661 * 2 powi (- 54)"] show ?thesis
    unfolding e by simp
qed

end
