(* ===== verification/JS_Number_Integer.thy ===== *)
theory JS_Number_Integer
  imports JS_Number_Exact
begin

text \<open>
  Integers as doubles. Below \<open>2\<^sup>5\<^sup>3\<close> in magnitude \<open>number_of_int\<close> is exact and
  injective, and on such integers the operators of \<open>JS_Number\<close> compute, term
  for term, the double of the integer sum, difference, product and exact
  quotient.
\<close>

section \<open>Integer arithmetic on the terms\<close>

lemma number_of_int_0 [simp]: "number_of_int 0 = Fin False 0 0"
  by (simp add: number_of_int_def round_dyadic_def)

lemma abs_signed: "\<bar>i\<bar> = n \<Longrightarrow> signed (i < 0) n = i"
  by (auto simp: signed_def)

lemma number_of_int_odd_part:
  assumes "i \<noteq> 0" "\<bar>i\<bar> < 2 ^ 53"
  obtains m j where "0 < m" "\<bar>i\<bar> = m * 2 ^ j" "number_of_int i = Fin (i < 0) m (int j)"
proof -
  from assms(1) have "0 < \<bar>i\<bar>" by simp
  from strip_zeros_pos [OF this, of 0] obtain m j where
    m: "odd m" "0 < m" "\<bar>i\<bar> = m * 2 ^ j" by metis
  have "m \<le> \<bar>i\<bar>" using m(2,3) by simp
  moreover have "bitlen \<bar>i\<bar> = bitlen m + int j" using m(2,3) by (simp add: bitlen_pow2)
  moreover have "bitlen \<bar>i\<bar> \<le> 53" using assms by (intro bitlen_le_53) simp_all
  ultimately have d: "is_double (Fin (i < 0) m (int j))"
    using assms(2) m(1,2) by (simp add: is_double_def)
  have "value_of (Fin (i < 0) m (int j)) = Some (real_of_int (signed (i < 0) (m * 2 ^ j)))"
    by (simp add: signed_def)
  hence "value_of (Fin (i < 0) m (int j)) = Some (real_of_int i)"
    by (simp only: abs_signed [OF m(3)])
  from double_canonical [OF number_of_int_is_double d number_of_int_value [OF assms(2)] this]
    assms(1) m(2,3) that
  show ?thesis by simp
qed

lemma number_of_int_form:
  assumes "i \<noteq> 0" "\<bar>i\<bar> < 2 ^ 53"
  obtains m j where "0 < m" "number_of_int i = Fin (i < 0) m (int j)"
  using number_of_int_odd_part [OF assms] by metis

lemma isInteger_number_of_int: "\<bar>i\<bar> < 2 ^ 53 \<Longrightarrow> isInteger (number_of_int i)"
  by (cases "i = 0") (auto elim: number_of_int_form)

lemma number_add_cancel:
  assumes "value_of (Fin s m e) = Some a" "value_of (Fin t n f) = Some (- a)"
  shows "number_add (Fin s m e) (Fin t n f) = Fin (s \<and> t) 0 0"
proof -
  define k where "k = min e f"
  define v where "v = signed s m * 2 ^ nat (e - k) + signed t n * 2 ^ nat (f - k)"
  have "real_of_int v * 2 powi k =
        real_of_int (signed s m) * 2 powi e + real_of_int (signed t n) * 2 powi f"
    unfolding v_def by (rule sum_scaled [OF k_def])
  also have "\<dots> = a + - a"
    using assms by simp
  finally have "v = 0" by simp
  thus ?thesis
    unfolding number_add.simps Let_def k_def [symmetric] v_def [symmetric]
    by (simp add: round_dyadic_def)
qed

lemma number_add_int:
  assumes "\<bar>a\<bar> < 2 ^ 53" "\<bar>b\<bar> < 2 ^ 53" "\<bar>a + b\<bar> < 2 ^ 53"
  shows "number_add (number_of_int a) (number_of_int b) = number_of_int (a + b)"
proof (cases "a + b = 0")
  case False
  have "value_of (number_add (number_of_int a) (number_of_int b)) = Some (real_of_int (a + b))"
    using number_add_exact [OF number_of_int_value [OF assms(1)] number_of_int_value [OF assms(2)]]
      representable_int [OF assms(3)] by simp
  from double_canonical [OF number_add_is_double number_of_int_is_double this
      number_of_int_value [OF assms(3)]] False
  show ?thesis by simp
next
  case True
  show ?thesis
  proof (cases "a = 0")
    case True
    with \<open>a + b = 0\<close> show ?thesis by (simp add: round_dyadic_def)
  next
    case False
    with True have nz: "a \<noteq> 0" "b \<noteq> 0" and neg: "(a < 0) \<noteq> (b < 0)" by auto
    from nz(1) assms(1) obtain m j where a: "number_of_int a = Fin (a < 0) m (int j)"
      by (rule number_of_int_form)
    from nz(2) assms(2) obtain n l where b: "number_of_int b = Fin (b < 0) n (int l)"
      by (rule number_of_int_form)
    have "real_of_int b = - real_of_int a" using True by linarith
    with number_of_int_value [OF assms(1)] number_of_int_value [OF assms(2)]
    have "number_add (Fin (a < 0) m (int j)) (Fin (b < 0) n (int l)) =
          Fin ((a < 0) \<and> (b < 0)) 0 0"
      unfolding a b by (intro number_add_cancel) simp_all
    with neg True show ?thesis by (auto simp: a b)
  qed
qed

lemma round_frac_sign: "number_unaryMinus (round_frac s p q) = round_frac (\<not> s) p q"
proof (cases "p = 0")
  case True
  thus ?thesis by (simp add: round_frac_def)
next
  case False
  define k where "k = max (floor_log2 p q - 52) (- 1074)"
  define m where "m = round_half_even (p * 2 ^ nat (- k)) (q * 2 ^ nat k)"
  show ?thesis
    unfolding round_frac_nz [OF False k_def m_def]
    by (cases "strip_zeros m k") simp
qed

lemma number_unaryMinus_int:
  assumes "b \<noteq> 0"
  shows "number_unaryMinus (number_of_int b) = number_of_int (- b)"
proof -
  have "(\<not> b < 0) = (0 < b)" using assms by auto
  with assms show ?thesis
    by (simp add: number_of_int_def round_dyadic_def round_frac_sign)
qed

lemma number_of_int_nonneg:
  assumes "0 \<le> i" "i < 2 ^ 53"
  obtains m e where "number_of_int i = Fin False m e" "(m = 0) = (i = 0)"
proof (cases "i = 0")
  case True
  with that [of 0 0] show ?thesis by simp
next
  case False
  with assms obtain m j where "0 < m" "number_of_int i = Fin (i < 0) m (int j)"
    by (elim number_of_int_form [of i]) simp_all
  with assms(1) False that [of m "int j"] show ?thesis by simp
qed

lemma is_zero_number_of_int: "\<bar>i\<bar> < 2 ^ 53 \<Longrightarrow> is_zero (number_of_int i) = (i = 0)"
  by (cases "i = 0") (auto elim: number_of_int_form)

lemma number_subtract_int:
  assumes "\<bar>a\<bar> < 2 ^ 53" "0 \<le> b" "b < 2 ^ 53" "\<bar>a - b\<bar> < 2 ^ 53"
  shows "number_subtract (number_of_int a) (number_of_int b) = number_of_int (a - b)"
proof (cases "b = 0")
  case False
  with number_add_int [of a "- b"] assms show ?thesis
    by (simp add: number_subtract_def number_unaryMinus_int)
next
  case b: True
  show ?thesis
  proof (cases "a = 0")
    case True
    with b show ?thesis by (simp add: number_subtract_def round_dyadic_def)
  next
    case False
    have "value_of (number_subtract (number_of_int a) (number_of_int b)) = Some (real_of_int a)"
      using number_subtract_exact [OF number_of_int_value [OF assms(1)], of "number_of_int 0" 0]
        representable_int [OF assms(1)] b by simp
    from double_canonical [OF number_subtract_is_double number_of_int_is_double this
        number_of_int_value [OF assms(1)]] False b
    show ?thesis by simp
  qed
qed

lemma number_multiply_int:
  assumes "0 \<le> a" "a < 2 ^ 53" "0 \<le> b" "b < 2 ^ 53" "a * b < 2 ^ 53"
  shows "number_multiply (number_of_int a) (number_of_int b) = number_of_int (a * b)"
proof (cases "a * b = 0")
  case True
  from assms(1,2) obtain m e where a: "number_of_int a = Fin False m e" "(m = 0) = (a = 0)"
    by (rule number_of_int_nonneg)
  from assms(3,4) obtain n f where b: "number_of_int b = Fin False n f" "(n = 0) = (b = 0)"
    by (rule number_of_int_nonneg)
  from True a(2) b(2) have "m * n = 0" by auto
  moreover have "number_of_int (a * b) = Fin False 0 0" by (simp only: True number_of_int_0)
  ultimately show ?thesis by (simp add: a(1) b(1) round_frac_def)
next
  case False
  have ab: "\<bar>a\<bar> < 2 ^ 53" "\<bar>b\<bar> < 2 ^ 53" "\<bar>a * b\<bar> < 2 ^ 53"
    using assms by (simp_all add: abs_mult)
  have "value_of (number_multiply (number_of_int a) (number_of_int b)) =
        Some (real_of_int (a * b))"
    using number_multiply_exact [OF number_of_int_is_double number_of_int_is_double
        number_of_int_value [OF ab(1)] number_of_int_value [OF ab(2)]]
      representable_int [OF ab(3)] by simp
  from double_canonical [OF number_multiply_is_double [OF number_of_int_is_double
        number_of_int_is_double] number_of_int_is_double this number_of_int_value [OF ab(3)]]
    False
  show ?thesis by simp
qed

lemma number_divide_int:
  assumes "0 \<le> a" "a < 2 ^ 53" "0 < b" "b < 2 ^ 53" "b dvd a"
  shows "number_divide (number_of_int a) (number_of_int b) = number_of_int (a div b)"
proof (cases "a = 0")
  case True
  from assms(3) have "0 \<le> b" by simp
  from this assms(4) obtain n f where b: "number_of_int b = Fin False n f" "(n = 0) = (b = 0)"
    by (rule number_of_int_nonneg)
  with True assms(3) show ?thesis by (simp add: round_frac_def)
next
  case False
  have ab: "\<bar>a\<bar> < 2 ^ 53" "\<bar>b\<bar> < 2 ^ 53" using assms by simp_all
  have q: "\<bar>a div b\<bar> < 2 ^ 53"
    using abs_div_le [OF assms(5)] assms(3) ab(1) by simp
  have "a div b \<noteq> 0" using assms(3,5) False by auto
  moreover have "real_of_int a / real_of_int b = real_of_int (a div b)"
    using assms(5) by (rule real_of_int_div [symmetric])
  moreover from this have "value_of (number_divide (number_of_int a) (number_of_int b)) =
        Some (real_of_int (a div b))"
    using number_divide_exact [OF number_of_int_is_double number_of_int_is_double
        number_of_int_value [OF ab(1)] number_of_int_value [OF ab(2)]]
      representable_int [OF q] assms(3) by simp
  ultimately show ?thesis
    using double_canonical [OF number_divide_is_double [OF number_of_int_is_double
        number_of_int_is_double] number_of_int_is_double _ number_of_int_value [OF q]]
    by simp
qed

text \<open>Products and quotients with a negative left operand, by the sign of the result.\<close>

lemma number_multiply_uminus:
  "number_multiply (number_unaryMinus x) y = number_unaryMinus (number_multiply x y)"
  by (cases x; cases y) (auto simp: round_frac_sign)

lemma number_divide_uminus:
  "number_divide (number_unaryMinus x) y = number_unaryMinus (number_divide x y)"
  by (cases x; cases y) (auto simp: round_frac_sign)

lemma number_of_int_uminus:
  "a \<noteq> 0 \<Longrightarrow> number_of_int (- a) = number_unaryMinus (number_of_int a)"
  by (simp add: number_unaryMinus_int)

lemma number_multiply_int_signed:
  assumes "\<bar>a\<bar> < 2 ^ 53" "0 \<le> b" "b < 2 ^ 53" "\<bar>a * b\<bar> < 2 ^ 53" "a < 0 \<longrightarrow> b \<noteq> 0"
  shows "number_multiply (number_of_int a) (number_of_int b) = number_of_int (a * b)"
proof (cases "a < 0")
  case True
  with assms(2,5) have nz: "- a \<noteq> 0" "- a * b \<noteq> 0" by auto
  have "number_multiply (number_of_int (- a)) (number_of_int b) = number_of_int (- a * b)"
    using True assms by (intro number_multiply_int) (simp_all add: abs_mult)
  with number_of_int_uminus [OF nz(1)] number_of_int_uminus [OF nz(2)] show ?thesis
    by (simp add: number_multiply_uminus)
next
  case False
  with assms show ?thesis by (intro number_multiply_int) (simp_all add: abs_mult)
qed

lemma number_divide_int_signed:
  assumes "\<bar>a\<bar> < 2 ^ 53" "0 < b" "b < 2 ^ 53" "b dvd a"
  shows "number_divide (number_of_int a) (number_of_int b) = number_of_int (a div b)"
proof (cases "a < 0")
  case True
  from assms(4) have d: "- a div b = - (a div b)" by (simp add: dvd_neg_div)
  from True assms(2,4) have nz: "- a \<noteq> 0" "- a div b \<noteq> 0"
    by (auto simp: dvd_div_eq_0_iff)
  have "number_divide (number_of_int (- a)) (number_of_int b) = number_of_int (- a div b)"
    using True assms by (intro number_divide_int) simp_all
  with number_of_int_uminus [OF nz(1)] number_of_int_uminus [OF nz(2)] show ?thesis
    by (simp add: number_divide_uminus d)
next
  case False
  with assms show ?thesis by (intro number_divide_int) simp_all
qed

lemma number_multiply_uminus_right:
  "number_multiply x (number_unaryMinus y) = number_unaryMinus (number_multiply x y)"
  by (cases x; cases y) (auto simp: round_frac_sign)

lemma number_negate_int:
  assumes "n \<noteq> 0" "\<bar>n\<bar> < 2 ^ 53"
  shows "number_multiply (number_of_int n) (number_of_int (- 1)) = number_of_int (- n)"
proof -
  have "number_multiply (number_of_int n) (number_of_int 1) = number_of_int (n * 1)"
    using assms by (intro number_multiply_int_signed) simp_all
  with number_of_int_uminus [of 1] number_of_int_uminus [OF assms(1)] show ?thesis
    by (simp add: number_multiply_uminus_right)
qed

section \<open>Integers beyond the safe range\<close>

lemma round_frac_int: "0 \<le> v \<Longrightarrow> round_frac False v 1 = number_of_int v"
  by (simp add: number_of_int_def round_dyadic_def round_frac_def)

lemma number_of_int_large:
  assumes "2 ^ 53 \<le> v"
  shows "number_of_int v = Infty False \<or>
         (\<exists>r. value_of (number_of_int v) = Some r \<and> 2 ^ 53 \<le> r)"
proof -
  from assms have v: "0 < v" by (rule less_le_trans [rotated]) simp
  define e where "e = floor_log2 v 1"
  define k where "k = max (e - 52) (- 1074)"
  define m where "m = round_half_even (v * 2 ^ nat (- k)) (1 * 2 ^ nat k)"
  have lo: "2 powi e \<le> real_of_int v" and hi: "real_of_int v < 2 powi (e + 1)"
    using floor_log2_bounds [OF v, of 1] by (simp_all add: e_def)
  have "(2::real) powi 53 \<le> real_of_int v"
    using assms by simp
  from this hi have "(2::real) powi 53 < 2 powi (e + 1)" by (rule le_less_trans)
  moreover have "(2::real) powi (e + 1) \<le> 2 powi 53" if "e + 1 \<le> 53"
    using that by (intro power_int_increasing) simp_all
  ultimately have e: "53 \<le> e" by force
  hence k: "k = e - 52" "0 \<le> k" by (simp_all add: k_def)
  have "(2::int) ^ nat e \<le> v"
    using lo e by (simp add: power_int_def)
  moreover have "nat e = 52 + nat k" using k e by simp
  ultimately have "2 ^ 52 * (1 * 2 ^ nat k) \<le> v * 2 ^ nat (- k)"
    using k(2) by (simp add: power_add)
  hence "2 ^ 52 \<le> m"
    unfolding m_def by (intro round_half_even_ge) simp_all
  hence "(2::real) ^ 52 \<le> real_of_int m" by simp
  moreover have "(2::real) powi 1 \<le> 2 powi k"
    using e k(1) by (intro power_int_increasing) simp_all
  hence "(2::real) \<le> 2 powi k" by simp
  ultimately have "(2::real) ^ 52 * 2 \<le> real_of_int m * 2 powi k"
    by (intro mult_mono) simp_all
  hence "(2::real) ^ 53 \<le> real_of_int m * 2 powi k" by simp
  with round_frac_value [OF v _ _ m_def, of False] show ?thesis
    using v by (auto simp: round_frac_int k_def e_def)
qed

lemma number_of_int_eq_iff:
  assumes "0 \<le> N" "N < 2 ^ 53" "0 \<le> v"
  shows "(number_of_int v = number_of_int N) = (v = N)"
proof
  assume eq: "number_of_int v = number_of_int N"
  have N: "value_of (number_of_int N) = Some (real_of_int N)"
    using assms(1,2) by (intro number_of_int_value) simp
  show "v = N"
  proof (cases "v < 2 ^ 53")
    case True
    with assms(3) have "value_of (number_of_int v) = Some (real_of_int v)"
      by (intro number_of_int_value) simp
    with eq N show ?thesis by simp
  next
    case False
    hence "2 ^ 53 \<le> v" by simp
    from number_of_int_large [OF this] eq N assms(2)
    have "(2::real) ^ 53 \<le> real_of_int N" by auto
    hence "2 ^ 53 \<le> N" by simp
    with assms(2) show ?thesis by simp
  qed
qed simp

text \<open>
  C19. Arithmetic on integers is exact within the safe range: for integers
  \<open>a\<close> and \<open>b\<close> of magnitude below \<open>2\<^sup>5\<^sup>3\<close>, the sum, difference and product
  computed on their doubles have the integer results as values, as long as
  these results stay below \<open>2\<^sup>5\<^sup>3\<close> in magnitude, and so has the quotient when
  \<open>b\<close> divides \<open>a\<close>.
\<close>

theorem safe_integer_arithmetic:
  assumes "\<bar>a\<bar> < 2 ^ 53" "\<bar>b\<bar> < 2 ^ 53"
  shows "(\<bar>a + b\<bar> < 2 ^ 53 \<longrightarrow>
            value_of (number_add (number_of_int a) (number_of_int b)) =
            Some (real_of_int (a + b))) \<and>
         (\<bar>a - b\<bar> < 2 ^ 53 \<longrightarrow>
            value_of (number_subtract (number_of_int a) (number_of_int b)) =
            Some (real_of_int (a - b))) \<and>
         (\<bar>a * b\<bar> < 2 ^ 53 \<longrightarrow>
            value_of (number_multiply (number_of_int a) (number_of_int b)) =
            Some (real_of_int (a * b))) \<and>
         (b \<noteq> 0 \<and> b dvd a \<longrightarrow>
            value_of (number_divide (number_of_int a) (number_of_int b)) =
            Some (real_of_int (a div b)))"
proof -
  note v = number_of_int_value [OF assms(1)] number_of_int_value [OF assms(2)]
  note d = number_of_int_is_double [of a] number_of_int_is_double [of b]
  have "\<bar>a div b\<bar> < 2 ^ 53" if "b dvd a" "b \<noteq> 0"
    using abs_div_le [OF that] assms(1) by simp
  moreover have "real_of_int a / real_of_int b = real_of_int (a div b)" if "b dvd a"
    using that by (rule real_of_int_div [symmetric])
  ultimately show ?thesis
    using number_add_exact [OF v] number_subtract_exact [OF v]
      number_multiply_exact [OF d v] number_divide_exact [OF d v]
      representable_int [of "a + b"] representable_int [of "a - b"]
      representable_int [of "a * b"] representable_int [of "a div b"]
    by auto
qed

theorem safe_integer_arithmetic_witness:
  "value_of (number_add (number_of_int 9007199254740000) (number_of_int 991)) =
     Some 9007199254740991 \<and>
   value_of (number_subtract (number_of_int 9007199254740000) (number_of_int 991)) =
     Some 9007199254739009 \<and>
   value_of (number_multiply (number_of_int 94906265) (number_of_int 94906265)) =
     Some 9007199136250225 \<and>
   value_of (number_divide (number_of_int 9007199136250225) (number_of_int 94906265)) =
     Some 94906265"
proof -
  have "(94906265::int) dvd 9007199136250225"
    by (rule dvdI [of _ _ 94906265]) simp
  with safe_integer_arithmetic [of 9007199254740000 991]
    safe_integer_arithmetic [of 94906265 94906265]
    safe_integer_arithmetic [of 9007199136250225 94906265]
  show ?thesis by simp
qed

end
