(* ===== verification/Calculator.thy ===== *)
theory Calculator
  imports JS_Number_String JS_Number_Integer
begin

text \<open>
  The calculator engine of src/client/src/pages/Calculator.tsx: the four state
  cells \<^verbatim>\<open>display\<close>, \<^verbatim>\<open>previousValue\<close>, \<^verbatim>\<open>operator\<close> and \<^verbatim>\<open>waitingForOperand\<close>
  (lines 9--12) as the record \<open>calc_state\<close>, and one definition per handler
  (lines 31--129), each the whole handler with its guards and early returns in
  the order of the source. A handler reads the state of the render it was
  created in and requests new values with the setters; the host runs handlers
  one at a time and re-renders in between, so a handler is a function from
  the state before to the state after. \<open>handle\<close> dispatches an event to its
  handler, \<open>run\<close> feeds a list of events, and \<open>reachable\<close> collects the states a
  user can produce from \<open>initial\<close> with the keys of the keypad.
\<close>

section \<open>State\<close>

text \<open>The type \<^verbatim>\<open>Operator\<close> of line 6 without its \<^verbatim>\<open>null\<close>, which is \<open>None\<close>.\<close>

datatype Operator = Add | Subtract | Multiply | Divide

record calc_state =
  display :: js_string
  previousValue :: "number option"
  operator :: "Operator option"
  waitingForOperand :: bool

definition initial :: calc_state where
  "initial = \<lparr>display = ''0'', previousValue = None, operator = None,
     waitingForOperand = False\<rparr>"

section \<open>Handlers\<close>

definition inputDigit :: "js_string \<Rightarrow> calc_state \<Rightarrow> calc_state" where
  "inputDigit digit s =
     (if display s = ''Error'' then
        s\<lparr>display := digit, previousValue := None, operator := None,
          waitingForOperand := False\<rparr>
      else if waitingForOperand s then
        s\<lparr>display := digit, waitingForOperand := False\<rparr>
      else if display s = ''0'' \<and> digit \<noteq> ''.'' then s\<lparr>display := digit\<rparr>
      else if digit = ''.'' \<and> js_includes (display s) ''.'' then s
      else if length (display s) < 15 then s\<lparr>display := display s @ digit\<rparr>
      else s)"

text \<open>
  The \<^verbatim>\<open>switch\<close> of lines 71--91: the new value, or \<open>None\<close> where the source
  takes the early return of a division by zero.
\<close>

fun calculate :: "Operator \<Rightarrow> number \<Rightarrow> number \<Rightarrow> number option" where
  "calculate Add currentValue inputValue = Some (number_add currentValue inputValue)"
| "calculate Subtract currentValue inputValue =
     Some (number_subtract currentValue inputValue)"
| "calculate Multiply currentValue inputValue =
     Some (number_multiply currentValue inputValue)"
| "calculate Divide currentValue inputValue =
     (if is_zero inputValue then None
      else Some (number_divide currentValue inputValue))"

text \<open>Lines 93--95: an integer as it is, anything else through eight decimals.\<close>

definition formattedValue :: "number \<Rightarrow> js_string" where
  "formattedValue newValue =
     (if isInteger newValue then number_toString newValue
      else number_toString (parseFloat (number_toFixed 8 newValue)))"

definition performOperation :: "Operator option \<Rightarrow> calc_state \<Rightarrow> calc_state" where
  "performOperation nextOperator s =
     (if display s = ''Error'' then
        s\<lparr>display := ''0'', previousValue := None, operator := None,
          waitingForOperand := False\<rparr>
      else
        let inputValue = parseFloat (display s)
        in case previousValue s of
             None \<Rightarrow>
               s\<lparr>previousValue := Some inputValue, waitingForOperand := True,
                 operator := nextOperator\<rparr>
           | Some currentValue \<Rightarrow>
               (case operator s of
                  None \<Rightarrow> s\<lparr>waitingForOperand := True, operator := nextOperator\<rparr>
                | Some op \<Rightarrow>
                    (case calculate op currentValue inputValue of
                       None \<Rightarrow>
                         s\<lparr>display := ''Error'', previousValue := None,
                           operator := None, waitingForOperand := True\<rparr>
                     | Some newValue \<Rightarrow>
                         s\<lparr>display := formattedValue newValue,
                           previousValue := Some newValue,
                           waitingForOperand := True,
                           operator := nextOperator\<rparr>)))"

definition clearAll :: "calc_state \<Rightarrow> calc_state" where
  "clearAll s =
     s\<lparr>display := ''0'', previousValue := None, operator := None,
       waitingForOperand := False\<rparr>"

definition toggleSign :: "calc_state \<Rightarrow> calc_state" where
  "toggleSign s =
     (if display s = ''Error'' then s
      else
        let value = parseFloat (display s)
        in s\<lparr>display := number_toString (number_multiply value (number_of_int (- 1)))\<rparr>)"

definition inputPercent :: "calc_state \<Rightarrow> calc_state" where
  "inputPercent s =
     (if display s = ''Error'' then s
      else
        let value = parseFloat (display s)
        in s\<lparr>display := number_toString (number_divide value (number_of_int 100))\<rparr>)"

definition handleBackspace :: "calc_state \<Rightarrow> calc_state" where
  "handleBackspace s =
     (if \<not> waitingForOperand s \<and> display s \<noteq> ''0'' \<and> display s \<noteq> ''Error'' then
        let newDisplay = slice_0_minus1 (display s)
        in s\<lparr>display := or_else newDisplay ''0''\<rparr>
      else s)"

lemmas handler_defs [calc_defs] =
  inputDigit_def performOperation_def clearAll_def toggleSign_def
  inputPercent_def handleBackspace_def formattedValue_def initial_def

section \<open>Events and runs\<close>

datatype event =
    InputDigit js_string
  | PerformOperation "Operator option"
  | ClearAll
  | ToggleSign
  | InputPercent
  | HandleBackspace

fun handle :: "event \<Rightarrow> calc_state \<Rightarrow> calc_state" where
  "handle (InputDigit d) s = inputDigit d s"
| "handle (PerformOperation nextOperator) s = performOperation nextOperator s"
| "handle ClearAll s = clearAll s"
| "handle ToggleSign s = toggleSign s"
| "handle InputPercent s = inputPercent s"
| "handle HandleBackspace s = handleBackspace s"

fun run :: "event list \<Rightarrow> calc_state \<Rightarrow> calc_state" where
  "run [] s = s"
| "run (ev # evs) s = run evs (handle ev s)"

text \<open>The arguments the page passes to \<^verbatim>\<open>inputDigit\<close>: ten digits and the point.\<close>

definition digit_keys :: "js_string list" where
  "digit_keys = map (\<lambda>c. [c]) ''0123456789'' @ [''.'']"

fun user_event :: "event \<Rightarrow> bool" where
  "user_event (InputDigit d) = (d \<in> set digit_keys)"
| "user_event ev = True"

text \<open>The events of entering a number: digits, the point, backspace and clear.\<close>

fun typing_event :: "event \<Rightarrow> bool" where
  "typing_event (InputDigit d) = (d \<in> set digit_keys)"
| "typing_event ClearAll = True"
| "typing_event HandleBackspace = True"
| "typing_event ev = False"

inductive reachable :: "calc_state \<Rightarrow> bool" where
  start: "reachable initial"
| step: "reachable s \<Longrightarrow> user_event ev \<Longrightarrow> reachable (handle ev s)"

lemma run_append [simp]: "run (evs @ evs') s = run evs' (run evs s)"
  by (induction evs arbitrary: s) auto

lemma reachable_run:
  "reachable s \<Longrightarrow> list_all user_event evs \<Longrightarrow> reachable (run evs s)"
  by (induction evs arbitrary: s) (auto intro: reachable.step)

lemma reachable_iff_run:
  "reachable s \<longleftrightarrow> (\<exists>evs. list_all user_event evs \<and> s = run evs initial)"
proof
  assume "reachable s"
  then show "\<exists>evs. list_all user_event evs \<and> s = run evs initial"
  proof (induction rule: reachable.induct)
    case start
    have "list_all user_event [] \<and> initial = run [] initial" by simp
    then show ?case by blast
  next
    case (step s ev)
    then obtain evs where "list_all user_event evs" "s = run evs initial" by blast
    then have "list_all user_event (evs @ [ev]) \<and> handle ev s = run (evs @ [ev]) initial"
      using step.hyps(2) by simp
    then show ?case by blast
  qed
next
  assume "\<exists>evs. list_all user_event evs \<and> s = run evs initial"
  then show "reachable s"
    using reachable_run [OF reachable.start] by blast
qed

section \<open>Well-formed states\<close>

text \<open>
  What every state a user can reach satisfies. A display that is not the error
  marker is a non-empty string over the characters of a printed number with
  at most one decimal point; the error marker comes with no stored operand and
  no pending operator.
\<close>

definition wf_display :: "js_string \<Rightarrow> bool" where
  "wf_display d \<longleftrightarrow> d \<noteq> [] \<and> list_all number_char d \<and> dots d \<le> 1"

definition calc_inv :: "calc_state \<Rightarrow> bool" where
  "calc_inv s \<longleftrightarrow>
     (if display s = ''Error'' then previousValue s = None \<and> operator s = None
      else wf_display (display s))"

text \<open>The stored operand, when there is one, is a value of binary64.\<close>

definition value_inv :: "calc_state \<Rightarrow> bool" where
  "value_inv s = (case previousValue s of None \<Rightarrow> True | Some v \<Rightarrow> is_double v)"

text \<open>
  The operators on the real numbers: what an operation is meant to compute,
  the reference the stored result is compared with.
\<close>

fun real_op :: "Operator \<Rightarrow> real \<Rightarrow> real \<Rightarrow> real" where
  "real_op Add a b = a + b"
| "real_op Subtract a b = a - b"
| "real_op Multiply a b = a * b"
| "real_op Divide a b = a / b"

lemma wf_display_not_Error: "wf_display d \<Longrightarrow> d \<noteq> ''Error''"
  by (auto simp: wf_display_def number_char_def is_digit_def)

lemma wf_display_toString [simp]: "wf_display (number_toString x)"
  unfolding wf_display_def
  by (intro conjI number_toString_nonempty number_toString_chars number_toString_dots)

lemma wf_display_0 [simp]: "wf_display ''0''"
  by (simp add: wf_display_def number_char_def is_digit_def)

lemma digit_key_cases:
  assumes "d \<in> set digit_keys"
  obtains c where "d = [c]" "is_digit c" | "d = ''.''"
  using assms by (auto simp: digit_keys_def is_digit_def)

lemma digit_key_wf: "d \<in> set digit_keys \<Longrightarrow> wf_display d"
  by (erule digit_key_cases)
    (auto simp: wf_display_def number_char_def dots_digits)

lemma wf_display_append_key:
  assumes "wf_display d" "k \<in> set digit_keys" "k = ''.'' \<longrightarrow> CHR ''.'' \<notin> set d"
  shows "wf_display (d @ k)"
  using assms(2)
proof (cases rule: digit_key_cases)
  case (1 c)
  with assms(1) show ?thesis
    by (auto simp: wf_display_def number_char_def is_digit_def)
next
  case 2
  with assms(1,3) show ?thesis
    by (simp add: wf_display_def number_char_def count_list_0_iff_notin)
qed

lemma wf_display_backspace:
  assumes "wf_display d"
  shows "wf_display (or_else (slice_0_minus1 d) ''0'')"
proof (cases "butlast d = []")
  case True
  then show ?thesis
    by (simp add: slice_0_minus1_def wf_display_def number_char_def is_digit_def)
next
  case False
  have "list_all number_char (butlast d)"
    using assms by (auto simp: wf_display_def list_all_iff dest: in_set_butlastD)
  moreover have "dots (butlast d) \<le> 1"
    using assms count_list_butlast_le [of d "CHR ''.''"] by (simp add: wf_display_def)
  ultimately show ?thesis
    using False by (simp add: slice_0_minus1_def or_else_def wf_display_def)
qed

lemma initial_inv: "calc_inv initial"
  by (simp add: calc_inv_def initial_def)

lemma inputDigit_inv:
  assumes "calc_inv s" "d \<in> set digit_keys"
  shows "calc_inv (inputDigit d s)"
proof -
  from assms(2) have d: "wf_display d" "d \<noteq> ''Error''"
    by (auto dest: digit_key_wf wf_display_not_Error)
  show ?thesis
  proof (cases "display s = ''Error'' \<or> waitingForOperand s \<or> display s = ''0'' \<and> d \<noteq> ''.''")
    case True
    with d show ?thesis
      by (auto simp: inputDigit_def calc_inv_def)
  next
    case False
    with assms(1) have wf: "wf_display (display s)"
      by (simp add: calc_inv_def)
    show ?thesis
    proof (cases "d = ''.'' \<and> CHR ''.'' \<in> set (display s) \<or> \<not> length (display s) < 15")
      case True
      with False assms(1) show ?thesis
        by (auto simp: inputDigit_def)
    next
      case no_reject: False
      with wf assms(2) have "wf_display (display s @ d)"
        by (intro wf_display_append_key) auto
      with False no_reject show ?thesis
        by (auto simp: inputDigit_def calc_inv_def dest: wf_display_not_Error)
    qed
  qed
qed

lemma performOperation_inv: "calc_inv s \<Longrightarrow> calc_inv (performOperation nextOperator s)"
  by (auto simp: performOperation_def calc_inv_def formattedValue_def Let_def
      split: option.splits)

lemma clearAll_inv: "calc_inv (clearAll s)"
  by (simp add: clearAll_def calc_inv_def)

lemma toggleSign_inv: "calc_inv s \<Longrightarrow> calc_inv (toggleSign s)"
  by (simp add: toggleSign_def calc_inv_def Let_def)

lemma inputPercent_inv: "calc_inv s \<Longrightarrow> calc_inv (inputPercent s)"
  by (simp add: inputPercent_def calc_inv_def Let_def)

lemma handleBackspace_inv:
  assumes "calc_inv s"
  shows "calc_inv (handleBackspace s)"
proof (cases "\<not> waitingForOperand s \<and> display s \<noteq> ''0'' \<and> display s \<noteq> ''Error''")
  case True
  with assms have "wf_display (or_else (slice_0_minus1 (display s)) ''0'')"
    by (intro wf_display_backspace) (simp add: calc_inv_def)
  with True show ?thesis
    by (auto simp: handleBackspace_def calc_inv_def Let_def dest: wf_display_not_Error)
next
  case False
  with assms show ?thesis
    by (auto simp: handleBackspace_def)
qed

lemmas handler_inv =
  inputDigit_inv performOperation_inv clearAll_inv toggleSign_inv
  inputPercent_inv handleBackspace_inv

lemma handle_inv: "calc_inv s \<Longrightarrow> user_event ev \<Longrightarrow> calc_inv (handle ev s)"
  by (cases ev) (simp_all add: handler_inv)

lemma reachable_inv: "reachable s \<Longrightarrow> calc_inv s"
  by (induction rule: reachable.induct) (simp_all add: initial_inv handle_inv)

lemmas arithmetic_is_double =
  number_add_is_double number_subtract_is_double number_multiply_is_double
  number_divide_is_double number_of_int_is_double parseFloat_is_double

lemma calculate_is_double:
  assumes "is_double a" "is_double b" "calculate op a b = Some v"
  shows "is_double v"
  using assms by (cases op) (auto simp: arithmetic_is_double split: if_splits)

lemma performOperation_value_inv:
  assumes "value_inv s"
  shows "value_inv (performOperation nextOperator s)"
  using assms calculate_is_double [OF _ parseFloat_is_double]
  by (auto simp: performOperation_def value_inv_def Let_def parseFloat_is_double
      split: option.splits)

lemma handle_value_inv: "value_inv s \<Longrightarrow> value_inv (handle ev s)"
  by (cases ev)
     (simp_all add: performOperation_value_inv,
      simp_all add: value_inv_def inputDigit_def clearAll_def toggleSign_def
        inputPercent_def handleBackspace_def Let_def)

lemma reachable_value_inv: "reachable s \<Longrightarrow> value_inv s"
  by (induction rule: reachable.induct)
     (simp_all add: handle_value_inv, simp add: value_inv_def initial_def)

section \<open>Properties of reachable states\<close>

text \<open>
  C1. In every state a user can reach, a display showing the error marker
  comes with no stored operand and no pending operator.
\<close>

theorem error_state_clean:
  assumes "reachable s" and "display s = ''Error''"
  shows "previousValue s = None \<and> operator s = None"
  using reachable_inv [OF assms(1)] assms(2) by (simp add: calc_inv_def)

theorem error_state_clean_witness:
  "reachable (run [InputDigit ''5'', PerformOperation (Some Divide), InputDigit ''0'',
       PerformOperation None] initial)
   \<and> display (run [InputDigit ''5'', PerformOperation (Some Divide), InputDigit ''0'',
       PerformOperation None] initial) = ''Error''
   \<and> previousValue (run [InputDigit ''5'', PerformOperation (Some Divide), InputDigit ''0'',
       PerformOperation None] initial) = None
   \<and> operator (run [InputDigit ''5'', PerformOperation (Some Divide), InputDigit ''0'',
       PerformOperation None] initial) = None"
proof -
  let ?s = "run [InputDigit ''5'', PerformOperation (Some Divide), InputDigit ''0'',
       PerformOperation None] initial"
  have r: "reachable ?s"
    by (rule reachable_run [OF reachable.start]) (simp add: digit_keys_def)
  have d: "display ?s = ''Error''"
    by code_simp
  from r d error_state_clean [OF r d] show ?thesis
    by blast
qed

text \<open>
  C8. In every state a user can reach the display holds at most one decimal
  point, whether it was typed or printed from a computed value.
\<close>

theorem display_at_most_one_point:
  assumes "reachable s"
  shows "dots (display s) \<le> 1"
  using reachable_inv [OF assms]
  by (cases "display s = ''Error''") (simp_all add: calc_inv_def wf_display_def)

theorem display_at_most_one_point_witness:
  "reachable (run [InputDigit ''1'', InputDigit ''.'', InputDigit ''.'', InputDigit ''5''] initial)
   \<and> display (run [InputDigit ''1'', InputDigit ''.'', InputDigit ''.'', InputDigit ''5''] initial)
       = ''1.5''
   \<and> dots (display (run [InputDigit ''1'', InputDigit ''.'', InputDigit ''.'', InputDigit ''5'']
       initial)) \<le> 1"
proof -
  let ?s = "run [InputDigit ''1'', InputDigit ''.'', InputDigit ''.'', InputDigit ''5''] initial"
  have r: "reachable ?s"
    by (rule reachable_run [OF reachable.start]) (simp add: digit_keys_def)
  have "display ?s = ''1.5''"
    by code_simp
  with r display_at_most_one_point [OF r] show ?thesis
    by blast
qed

section \<open>Entering a number\<close>

lemma digit_key_length: "d \<in> set digit_keys \<Longrightarrow> length d = 1"
  by (auto simp: digit_keys_def)

lemma typing_step_length:
  assumes "typing_event ev" "length (display s) \<le> 15"
  shows "length (display (handle ev s)) \<le> 15"
  using assms
  by (cases ev)
    (auto simp: inputDigit_def clearAll_def handleBackspace_def or_else_def Let_def
      dest: digit_key_length)

lemma typing_run_length:
  "list_all typing_event evs \<Longrightarrow> length (display s) \<le> 15
    \<Longrightarrow> length (display (run evs s)) \<le> 15"
  by (induction evs arbitrary: s) (simp_all add: typing_step_length)

text \<open>
  C9. While the user only types (digits, the point, backspace, clear), the
  display never grows beyond 15 characters: further digits are dropped.
\<close>

theorem typing_within_limit:
  assumes "list_all typing_event evs"
  shows "length (display (run evs initial)) \<le> 15"
  using typing_run_length [OF assms, of initial] by (simp add: initial_def)

theorem typing_within_limit_witness:
  "list_all typing_event (replicate 20 (InputDigit ''9''))
   \<and> display (run (replicate 20 (InputDigit ''9'')) initial) = replicate 15 (CHR ''9'')
   \<and> length (display (run (replicate 20 (InputDigit ''9'')) initial)) \<le> 15"
proof -
  have t: "list_all typing_event (replicate 20 (InputDigit ''9''))"
    by (simp add: list_all_iff digit_keys_def)
  have "display (run (replicate 20 (InputDigit ''9'')) initial) = replicate 15 (CHR ''9'')"
    by code_simp
  with t typing_within_limit [OF t] show ?thesis
    by blast
qed

section \<open>Division by zero and the error state\<close>

text \<open>
  C4. Evaluating a pending division whose right operand reads as zero (either
  zero of the number type) puts the engine into the error state: the display
  shows the marker, operand and operator are dropped, and the next digit
  starts a fresh entry.
\<close>

theorem division_by_zero_error:
  assumes "display s \<noteq> ''Error''" and "previousValue s = Some v"
    and "operator s = Some Divide" and "is_zero (parseFloat (display s))"
  shows "performOperation nextOperator s =
    s\<lparr>display := ''Error'', previousValue := None, operator := None,
      waitingForOperand := True\<rparr>"
  using assms by (simp add: performOperation_def)

theorem division_by_zero_error_witness:
  "performOperation None
     \<lparr>display = ''0.0'', previousValue = Some (Fin False 5 0), operator = Some Divide,
       waitingForOperand = False\<rparr> =
   \<lparr>display = ''Error'', previousValue = None, operator = None, waitingForOperand = True\<rparr>"
proof -
  let ?s = "\<lparr>display = ''0.0'', previousValue = Some (Fin False 5 0),
    operator = Some Divide, waitingForOperand = False\<rparr>"
  have z: "is_zero (parseFloat (display ?s))"
    by code_simp
  show ?thesis
    using division_by_zero_error [of ?s "Fin False 5 0" None, OF _ _ _ z] by simp
qed

lemma key_append_not_Error: "d \<in> set digit_keys \<Longrightarrow> x @ d \<noteq> ''Error''"
  by (auto simp: digit_keys_def append_eq_Cons_conv)

lemma key_not_Error: "d \<in> set digit_keys \<Longrightarrow> d \<noteq> ''Error''"
  by (auto simp: digit_keys_def)

lemma formattedValue_not_Error [simp]: "formattedValue v \<noteq> ''Error''"
  by (simp add: formattedValue_def)

lemma error_entry:
  assumes "calc_inv s" "user_event ev" "display s \<noteq> ''Error''"
    "display (handle ev s) = ''Error''"
  shows "\<exists>nextOperator v. ev = PerformOperation nextOperator \<and> previousValue s = Some v
    \<and> operator s = Some Divide \<and> is_zero (parseFloat (display s))"
proof (cases ev)
  case (InputDigit d)
  with assms show ?thesis
    by (auto simp: inputDigit_def key_append_not_Error key_not_Error split: if_splits)
next
  case (PerformOperation nextOperator)
  with assms(3,4) show ?thesis
    by (cases "operator s"; cases "the (operator s)")
      (auto simp: performOperation_def Let_def split: option.splits if_splits)
next
  case HandleBackspace
  from assms(1,3) have "wf_display (or_else (slice_0_minus1 (display s)) ''0'')"
    by (intro wf_display_backspace) (simp add: calc_inv_def)
  with HandleBackspace assms(3,4) show ?thesis
    by (auto simp: handleBackspace_def Let_def split: if_splits dest: wf_display_not_Error)
qed (use assms in \<open>auto simp: clearAll_def toggleSign_def inputPercent_def Let_def\<close>)

text \<open>
  C5. The error state is entered by division by zero only: a step from a
  reachable state that turns the display into the error marker is an
  operator or equals key pressed while a division is pending and the display
  reads as zero.
\<close>

theorem error_only_from_division_by_zero:
  assumes "reachable s" and "user_event ev" and "display s \<noteq> ''Error''"
    and "display (handle ev s) = ''Error''"
  shows "\<exists>nextOperator v. ev = PerformOperation nextOperator \<and> previousValue s = Some v
    \<and> operator s = Some Divide \<and> is_zero (parseFloat (display s))"
  using error_entry [OF reachable_inv [OF assms(1)] assms(2-4)] .

theorem error_only_from_division_by_zero_witness:
  "\<exists>nextOperator v. PerformOperation None = PerformOperation nextOperator
     \<and> previousValue (run [InputDigit ''5'', PerformOperation (Some Divide), InputDigit ''0'']
           initial) = Some v
     \<and> operator (run [InputDigit ''5'', PerformOperation (Some Divide), InputDigit ''0'']
           initial) = Some Divide
     \<and> is_zero (parseFloat (display (run [InputDigit ''5'', PerformOperation (Some Divide),
           InputDigit ''0''] initial)))"
proof -
  let ?s = "run [InputDigit ''5'', PerformOperation (Some Divide), InputDigit ''0''] initial"
  have r: "reachable ?s"
    by (rule reachable_run [OF reachable.start]) (simp add: digit_keys_def)
  have d: "display ?s \<noteq> ''Error''"
    by code_simp
  have e: "display (handle (PerformOperation None) ?s) = ''Error''"
    by code_simp
  show ?thesis
    by (rule error_only_from_division_by_zero [OF r _ d e]) simp
qed

text \<open>
  C13. The error state heals itself: from it a digit key starts a fresh entry
  with that digit and nothing stored, and an operator or equals key returns
  to the initial state without applying anything.
\<close>

theorem error_recovery:
  assumes "display s = ''Error''"
  shows "inputDigit d s =
      \<lparr>display = d, previousValue = None, operator = None, waitingForOperand = False\<rparr>
    \<and> performOperation nextOperator s = initial"
  using assms by (simp add: inputDigit_def performOperation_def initial_def)

theorem error_recovery_witness:
  "inputDigit ''7'' (run [InputDigit ''5'', PerformOperation (Some Divide), InputDigit ''0'',
       PerformOperation None] initial) =
      \<lparr>display = ''7'', previousValue = None, operator = None, waitingForOperand = False\<rparr>
    \<and> performOperation (Some Add) (run [InputDigit ''5'', PerformOperation (Some Divide),
       InputDigit ''0'', PerformOperation None] initial) = initial"
proof -
  have "display (run [InputDigit ''5'', PerformOperation (Some Divide), InputDigit ''0'',
       PerformOperation None] initial) = ''Error''"
    by code_simp
  then show ?thesis
    by (rule error_recovery)
qed

section \<open>Operations\<close>

lemma inputDigit_keeps_operand:
  "display s \<noteq> ''Error'' \<Longrightarrow>
    previousValue (inputDigit d s) = previousValue s \<and> operator (inputDigit d s) = operator s"
  by (simp add: inputDigit_def)

lemma inputDigit_not_Error:
  "d \<in> set digit_keys \<Longrightarrow> display (inputDigit d s) \<noteq> ''Error'' \<or> inputDigit d s = s"
  by (auto simp: inputDigit_def key_append_not_Error key_not_Error)

lemma typing_keeps_operand:
  assumes "set ds \<subseteq> set digit_keys" "display s \<noteq> ''Error''"
  shows "display (run (map InputDigit ds) s) \<noteq> ''Error''
    \<and> previousValue (run (map InputDigit ds) s) = previousValue s
    \<and> operator (run (map InputDigit ds) s) = operator s"
  using assms
proof (induction ds arbitrary: s)
  case Nil
  then show ?case by simp
next
  case (Cons d ds)
  then have d: "d \<in> set digit_keys" and ds: "set ds \<subseteq> set digit_keys"
    by simp_all
  from inputDigit_not_Error [OF d, of s] Cons.prems(2)
  have ne: "display (inputDigit d s) \<noteq> ''Error''"
    by auto
  from Cons.IH [OF ds ne] inputDigit_keeps_operand [OF Cons.prems(2), of d]
  show ?case by simp
qed

lemma performOperation_pending:
  assumes "display s \<noteq> ''Error''" "previousValue s = Some a" "operator s = Some op"
  shows "display (performOperation nextOperator s) =
    (case calculate op a (parseFloat (display s)) of
       None \<Rightarrow> ''Error'' | Some v \<Rightarrow> formattedValue v)"
  using assms by (simp add: performOperation_def Let_def split: option.splits)

lemma performOperation_first:
  assumes "display s \<noteq> ''Error''" "previousValue s = None"
  shows "performOperation nextOperator s =
         s\<lparr>previousValue := Some (parseFloat (display s)), waitingForOperand := True,
           operator := nextOperator\<rparr>"
  using assms by (simp add: performOperation_def Let_def)

lemma performOperation_result:
  assumes "display s \<noteq> ''Error''" "previousValue s = Some x" "operator s = Some op"
    and "calculate op x (parseFloat (display s)) = Some v"
  shows "performOperation nextOperator s =
         s\<lparr>display := formattedValue v, previousValue := Some v, waitingForOperand := True,
           operator := nextOperator\<rparr>"
  using assms by (simp add: performOperation_def Let_def)

text \<open>
  C3. A two-operand calculation: from a state with nothing stored, pressing an
  operator, typing the second operand and pressing equals (or another
  operator) shows the formatted result of applying the operator to the number
  read from the display before and the number read from the display after the
  typing, or the error marker when that is a division by zero.
\<close>

theorem binary_operation_result:
  assumes "display s \<noteq> ''Error''" and "previousValue s = None"
    and "set ds \<subseteq> set digit_keys"
  shows "display (run (PerformOperation (Some op) # map InputDigit ds @
        [PerformOperation nextOperator]) s) =
    (case calculate op (parseFloat (display s))
        (parseFloat (display (run (PerformOperation (Some op) # map InputDigit ds) s))) of
       None \<Rightarrow> ''Error''
     | Some v \<Rightarrow> formattedValue v)"
proof -
  let ?s1 = "performOperation (Some op) s"
  from assms(1,2) have s1: "display ?s1 \<noteq> ''Error''"
    "previousValue ?s1 = Some (parseFloat (display s))" "operator ?s1 = Some op"
    by (simp_all add: performOperation_def Let_def)
  let ?s2 = "run (map InputDigit ds) ?s1"
  from typing_keeps_operand [OF assms(3) s1(1)] s1(2,3)
  have "display ?s2 \<noteq> ''Error''" "previousValue ?s2 = Some (parseFloat (display s))"
    "operator ?s2 = Some op"
    by simp_all
  from performOperation_pending [OF this] show ?thesis
    by simp
qed

theorem binary_operation_result_witness:
  "display (run (PerformOperation (Some Add) # map InputDigit [''3''] @ [PerformOperation None])
      (inputDigit ''5'' initial)) = ''8''"
proof -
  have "display (inputDigit ''5'' initial) \<noteq> ''Error''"
    "previousValue (inputDigit ''5'' initial) = None"
    "set [''3''] \<subseteq> set digit_keys"
    by (simp_all add: inputDigit_def initial_def digit_keys_def)
  from binary_operation_result [OF this, of Add None]
  have "display (run (PerformOperation (Some Add) # map InputDigit [''3''] @
      [PerformOperation None]) (inputDigit ''5'' initial)) =
    (case calculate Add (parseFloat (display (inputDigit ''5'' initial)))
        (parseFloat (display (run (PerformOperation (Some Add) # map InputDigit [''3''])
          (inputDigit ''5'' initial)))) of
       None \<Rightarrow> ''Error''
     | Some v \<Rightarrow> formattedValue v)" .
  also have "\<dots> = ''8''"
    by code_simp
  finally show ?thesis .
qed

text \<open>
  C26. Pressing equals again changes nothing: once an equals key has been
  handled without error, a second one leaves the whole state as it is, since
  no operator is pending.
\<close>

theorem equals_twice:
  assumes "display s \<noteq> ''Error''" and "display (performOperation None s) \<noteq> ''Error''"
  shows "performOperation None (performOperation None s) = performOperation None s"
  using assms
  by (cases "previousValue s"; cases "operator s")
    (auto simp: performOperation_def Let_def split: option.splits)

theorem equals_twice_witness:
  "performOperation None (performOperation None
      (run [InputDigit ''4'', PerformOperation (Some Add), InputDigit ''2''] initial)) =
    performOperation None
      (run [InputDigit ''4'', PerformOperation (Some Add), InputDigit ''2''] initial)
   \<and> display (performOperation None
      (run [InputDigit ''4'', PerformOperation (Some Add), InputDigit ''2''] initial)) = ''6''"
proof -
  let ?s = "run [InputDigit ''4'', PerformOperation (Some Add), InputDigit ''2''] initial"
  have a: "display ?s \<noteq> ''Error''"
    by code_simp
  have b: "display (performOperation None ?s) = ''6''"
    by code_simp
  then have "display (performOperation None ?s) \<noteq> ''Error''"
    by simp
  from equals_twice [OF a this] b show ?thesis
    by blast
qed

text \<open>
  C27. Backspace undoes a digit: in a reachable state that is neither awaiting
  an operand nor in error, a digit key that changed the state followed by
  backspace gives the state back.
\<close>

theorem backspace_undoes_digit:
  assumes "reachable s" and "\<not> waitingForOperand s" and "display s \<noteq> ''Error''"
    and "d \<in> set digit_keys" and "inputDigit d s \<noteq> s"
  shows "handleBackspace (inputDigit d s) = s"
proof -
  from reachable_inv [OF assms(1)] assms(3) have ne: "display s \<noteq> []"
    by (simp add: calc_inv_def wf_display_def)
  from assms(4) obtain c where c: "d = [c]"
    by (auto simp: digit_keys_def)
  show ?thesis
  proof (cases "display s = ''0'' \<and> d \<noteq> ''.''")
    case True
    with assms(2,3,5) c show ?thesis
      by (cases s) (auto simp: inputDigit_def handleBackspace_def slice_0_minus1_def)
  next
    case False
    with assms(2,3,5) have app: "inputDigit d s = s\<lparr>display := display s @ d\<rparr>"
      by (auto simp: inputDigit_def split: if_splits)
    have "display s @ d \<noteq> ''0''" "display s @ d \<noteq> ''Error''"
      using ne c key_append_not_Error [OF assms(4)] by (auto simp: append_eq_Cons_conv)
    with app assms(2) ne c show ?thesis
      by (cases s) (simp add: handleBackspace_def or_else_def)
  qed
qed

theorem backspace_undoes_digit_witness:
  "handleBackspace (inputDigit ''.'' (run [InputDigit ''1'', InputDigit ''2''] initial)) =
    run [InputDigit ''1'', InputDigit ''2''] initial"
proof -
  let ?s = "run [InputDigit ''1'', InputDigit ''2''] initial"
  have r: "reachable ?s"
    by (rule reachable_run [OF reachable.start]) (simp add: digit_keys_def)
  have "\<not> waitingForOperand ?s" "display ?s \<noteq> ''Error''" "inputDigit ''.'' ?s \<noteq> ?s"
    by code_simp+
  moreover have "''.'' \<in> set digit_keys"
    by (simp add: digit_keys_def)
  ultimately show ?thesis
    using backspace_undoes_digit [OF r] by blast
qed

text \<open>
  C31. The sign and percent keys only rewrite the display: stored operand,
  pending operator and the awaiting flag stay as they are, and in the error
  state both keys do nothing at all.
\<close>

theorem sign_percent_frame:
  "previousValue (toggleSign s) = previousValue s \<and> operator (toggleSign s) = operator s
   \<and> waitingForOperand (toggleSign s) = waitingForOperand s
   \<and> previousValue (inputPercent s) = previousValue s \<and> operator (inputPercent s) = operator s
   \<and> waitingForOperand (inputPercent s) = waitingForOperand s
   \<and> (display s = ''Error'' \<longrightarrow> toggleSign s = s \<and> inputPercent s = s)"
  by (simp add: toggleSign_def inputPercent_def Let_def)

theorem sign_percent_frame_witness:
  "toggleSign (run [InputDigit ''5'', PerformOperation (Some Divide), InputDigit ''0'',
       PerformOperation None] initial) =
     run [InputDigit ''5'', PerformOperation (Some Divide), InputDigit ''0'',
       PerformOperation None] initial
   \<and> inputPercent (run [InputDigit ''5'', PerformOperation (Some Divide), InputDigit ''0'',
       PerformOperation None] initial) =
     run [InputDigit ''5'', PerformOperation (Some Divide), InputDigit ''0'',
       PerformOperation None] initial"
proof -
  let ?s = "run [InputDigit ''5'', PerformOperation (Some Divide), InputDigit ''0'',
       PerformOperation None] initial"
  have "display ?s = ''Error''"
    by code_simp
  with sign_percent_frame [of ?s] show ?thesis
    by blast
qed

section \<open>Accuracy of a result\<close>

lemma calculate_rounds:
  assumes "is_double x" "is_double y" "value_of x = Some a" "value_of y = Some b"
    and "op = Divide \<longrightarrow> b \<noteq> 0"
  shows "\<exists>v. calculate op x y = Some v \<and> rounds_to (real_op op a b) v"
  using assms
  by (cases op)
     (simp_all add: number_add_rounds number_subtract_rounds number_multiply_rounds
        number_divide_rounds is_zero_value)

text \<open>
  C15. The stored result is the correctly rounded result of the operation on
  the stored operand and the number on the display. In a reachable state with
  an operator pending, whenever the stored operand has the real value \<open>a\<close>,
  the display reads as a number of real value \<open>b\<close> and the new stored value
  is finite, no double is closer to \<open>a + b\<close>, \<open>a - b\<close>, \<open>a \<sqdot> b\<close> or \<open>a / b\<close>, as
  the pending operator asks, than the value the calculator stores. The left
  operand is the stored one, the right operand the displayed one.
\<close>

theorem result_correctly_rounded:
  assumes "reachable s" "display s \<noteq> ''Error''"
    and "previousValue s = Some x" "operator s = Some op"
    and "value_of x = Some a" "value_of (parseFloat (display s)) = Some b"
    and "op = Divide \<longrightarrow> b \<noteq> 0"
    and "previousValue (performOperation nextOperator s) = Some y" "value_of y = Some r"
    and "is_double z" "value_of z = Some w"
  shows "\<bar>r - real_op op a b\<bar> \<le> \<bar>w - real_op op a b\<bar>"
proof -
  from reachable_value_inv [OF assms(1)] assms(3) have "is_double x"
    by (simp add: value_inv_def)
  from calculate_rounds [OF this parseFloat_is_double assms(5-7)]
  obtain v where v: "calculate op x (parseFloat (display s)) = Some v"
    "rounds_to (real_op op a b) v" by blast
  from performOperation_result [OF assms(2-4) v(1), of nextOperator] assms(8)
  have "y = v" by simp
  with rounds_to_nearest [OF v(2) _ assms(10,11)] assms(9) show ?thesis
    by simp
qed

theorem result_correctly_rounded_witness:
  "previousValue (performOperation None
     (run [InputDigit ''1'', PerformOperation (Some Divide), InputDigit ''3''] initial)) =
     Some (Fin False 6004799503160661 (- 54)) \<and>
   \<bar>6004799503160661 * 2 powi (- 54) - 1 / 3\<bar> \<le>
     \<bar>3002399751580331 * 2 powi (- 53) - 1 / (3::real)\<bar>"
proof -
  let ?s = "run [InputDigit ''1'', PerformOperation (Some Divide), InputDigit ''3''] initial"
  have r: "reachable ?s"
    by (rule reachable_run [OF reachable.start]) (simp add: digit_keys_def)
  have s: "?s = \<lparr>display = ''3'', previousValue = Some (Fin False 1 0),
      operator = Some Divide, waitingForOperand = False\<rparr>"
    by code_simp
  have p: "parseFloat ''3'' = Fin False 3 0"
    by code_simp
  have y: "previousValue (performOperation None ?s) = Some (Fin False 6004799503160661 (- 54))"
    by code_simp
  have z: "is_double (Fin False 3002399751580331 (- 53))"
    by code_simp
  from result_correctly_rounded [OF r _ _ _ _ _ _ y _ z, of "Fin False 1 0" Divide 1 3
      "6004799503160661 * 2 powi (- 54)" "3002399751580331 * 2 powi (- 53)"] y
  show ?thesis
    by (simp add: s p)
qed

section \<open>Not a number\<close>

text \<open>
  A lone decimal point does not read as a number, and neither operators nor
  formatting stop the NaN it reads as.
\<close>

lemma parseFloat_point [simp]: "parseFloat ''.'' = NaN"
  by code_simp

lemma formattedValue_NaN [simp]: "formattedValue NaN = ''NaN''"
  by code_simp

lemma number_toString_NaN [simp]: "number_toString NaN = ''NaN''"
  by (simp add: number_toString_def)

lemma arithmetic_NaN [simp]:
  "number_add x NaN = NaN" "number_subtract x NaN = NaN"
  "number_multiply x NaN = NaN" "number_divide x NaN = NaN"
  "number_multiply NaN x = NaN" "number_divide NaN x = NaN"
  "number_subtract NaN x = NaN"
  by (cases x; simp add: number_subtract_def)+

lemma calculate_NaN_right [simp]: "calculate op v NaN = Some NaN"
  by (cases op) simp_all

lemma calculate_NaN_left:
  "op = Divide \<longrightarrow> \<not> is_zero x \<Longrightarrow> calculate op NaN x = Some NaN"
  by (cases op) simp_all

text \<open>
  C22. A decimal point typed as the whole operand puts NaN on the display. In
  every state that awaits an operand with an operator pending, the point key
  followed by equals or by another operator shows \<^verbatim>\<open>NaN\<close> and stores NaN as the
  operand, whatever was stored before; the sign key and the percent key after
  the point show \<^verbatim>\<open>NaN\<close> as well.
\<close>

theorem lone_point_gives_NaN:
  assumes "display s \<noteq> ''Error''" "waitingForOperand s"
    and "previousValue s = Some v" "operator s = Some op"
  shows "performOperation nextOperator (inputDigit ''.'' s) =
           s\<lparr>display := ''NaN'', previousValue := Some NaN, waitingForOperand := True,
             operator := nextOperator\<rparr>
         \<and> display (toggleSign (inputDigit ''.'' s)) = ''NaN''
         \<and> display (inputPercent (inputDigit ''.'' s)) = ''NaN''"
  using assms by (simp add: inputDigit_def performOperation_def toggleSign_def inputPercent_def)

theorem lone_point_gives_NaN_witness:
  "performOperation None (inputDigit ''.''
     (run [InputDigit ''5'', PerformOperation (Some Add)] initial)) =
   \<lparr>display = ''NaN'', previousValue = Some NaN, operator = None, waitingForOperand = True\<rparr>"
proof -
  have s: "run [InputDigit ''5'', PerformOperation (Some Add)] initial =
      \<lparr>display = ''5'', previousValue = Some (Fin False 5 0), operator = Some Add,
        waitingForOperand = True\<rparr>"
    by code_simp
  from lone_point_gives_NaN [of "run [InputDigit ''5'', PerformOperation (Some Add)] initial"
      "Fin False 5 0" Add None]
  show ?thesis unfolding s by simp
qed

text \<open>
  C23. NaN stays. Once NaN is the stored operand and an operator is pending,
  every result is NaN again, whatever number is entered, until the calculator
  is cleared or a division by zero replaces it by the error state.
\<close>

theorem NaN_is_absorbing:
  assumes "display s \<noteq> ''Error''" "previousValue s = Some NaN" "operator s = Some op"
    and "op = Divide \<longrightarrow> \<not> is_zero (parseFloat (display s))"
  shows "performOperation nextOperator s =
           s\<lparr>display := ''NaN'', previousValue := Some NaN, waitingForOperand := True,
             operator := nextOperator\<rparr>"
  using assms by (simp add: performOperation_def calculate_NaN_left)

theorem NaN_is_absorbing_witness:
  "performOperation None
     \<lparr>display = ''7'', previousValue = Some NaN, operator = Some Multiply,
       waitingForOperand = False\<rparr> =
   \<lparr>display = ''NaN'', previousValue = Some NaN, operator = None, waitingForOperand = True\<rparr>"
  using NaN_is_absorbing [of "\<lparr>display = ''7'', previousValue = Some NaN,
      operator = Some Multiply, waitingForOperand = False\<rparr>" Multiply None]
  by simp

end
