(* ===== verification/Interface.thy ===== *)
theory Interface
  imports Calculator
begin

text \<open>
  How the page turns user input into engine events (Calculator.tsx): the
  \<^verbatim>\<open>keydown\<close> listener of lines 131--168 as \<open>key_action\<close> and \<open>handleKeyDown\<close>, and
  the nineteen buttons of the keypad, lines 203--360, as the datatype \<open>button\<close>
  with the event each \<^verbatim>\<open>onClick\<close> raises. Strings are compared as JavaScript
  compares them, code unit by code unit, which is the lexicographic order of
  \<open>HOL-Library.List_Lexorder\<close> over \<open>HOL-Library.Char_ord\<close>.
\<close>

section \<open>Keyboard\<close>

record keyboard_event =
  key :: js_string
  metaKey :: bool
  ctrlKey :: bool
  altKey :: bool

text \<open>
  The strings of the type \<^verbatim>\<open>Operator\<close> (line 6); the multiplication and division
  signs are the code units U+00D7 and U+00F7.
\<close>

fun operator_symbol :: "Operator \<Rightarrow> js_string" where
  "operator_symbol Add = ''+''"
| "operator_symbol Subtract = ''-''"
| "operator_symbol Multiply = [CHR 0xD7]"
| "operator_symbol Divide = [CHR 0xF7]"

text \<open>Line 147 passes the key itself as the operator; the guard admits two keys.\<close>

definition key_operator :: "js_string \<Rightarrow> Operator" where
  "key_operator k = (if k = operator_symbol Add then Add else Subtract)"

text \<open>
  The branch of \<^verbatim>\<open>handleKeyDown\<close> a key event takes (lines 133--163): the
  engine event it raises, or \<open>None\<close> when the listener returns without calling
  \<^verbatim>\<open>preventDefault\<close>.
\<close>

definition key_action :: "keyboard_event \<Rightarrow> event option" where
  "key_action e =
     (if metaKey e \<or> ctrlKey e \<or> altKey e then None
      else if ''0'' \<le> key e \<and> key e \<le> ''9'' then Some (InputDigit (key e))
      else if key e = ''.'' then Some (InputDigit ''.'')
      else if key e = ''+'' \<or> key e = ''-'' then
        Some (PerformOperation (Some (key_operator (key e))))
      else if key e = ''*'' then Some (PerformOperation (Some Multiply))
      else if key e = ''/'' then Some (PerformOperation (Some Divide))
      else if key e = ''Enter'' \<or> key e = ''='' then Some (PerformOperation None)
      else if key e = ''Escape'' \<or> key e = ''c'' \<or> key e = ''C'' then Some ClearAll
      else if key e = ''Backspace'' then Some HandleBackspace
      else None)"

text \<open>The listener: whether the default action was prevented, and the new state.\<close>

definition handleKeyDown :: "keyboard_event \<Rightarrow> calc_state \<Rightarrow> bool \<times> calc_state" where
  "handleKeyDown e s =
     (case key_action e of None \<Rightarrow> (False, s) | Some ev \<Rightarrow> (True, handle ev s))"

text \<open>A key pressed with no modifier held.\<close>

definition plain_key :: "js_string \<Rightarrow> keyboard_event" where
  "plain_key k = \<lparr>key = k, metaKey = False, ctrlKey = False, altKey = False\<rparr>"

section \<open>Buttons\<close>

text \<open>The buttons of the keypad in the order of the grid, named by their test ids.\<close>

datatype button =
    ButtonClear | ButtonNegate | ButtonPercent | ButtonDivide
  | Button7 | Button8 | Button9 | ButtonMultiply
  | Button4 | Button5 | Button6 | ButtonSubtract
  | Button1 | Button2 | Button3 | ButtonAdd
  | Button0 | ButtonDecimal | ButtonEquals

fun onClick :: "button \<Rightarrow> event" where
  "onClick ButtonClear = ClearAll"
| "onClick ButtonNegate = ToggleSign"
| "onClick ButtonPercent = InputPercent"
| "onClick ButtonDivide = PerformOperation (Some Divide)"
| "onClick Button7 = InputDigit ''7''"
| "onClick Button8 = InputDigit ''8''"
| "onClick Button9 = InputDigit ''9''"
| "onClick ButtonMultiply = PerformOperation (Some Multiply)"
| "onClick Button4 = InputDigit ''4''"
| "onClick Button5 = InputDigit ''5''"
| "onClick Button6 = InputDigit ''6''"
| "onClick ButtonSubtract = PerformOperation (Some Subtract)"
| "onClick Button1 = InputDigit ''1''"
| "onClick Button2 = InputDigit ''2''"
| "onClick Button3 = InputDigit ''3''"
| "onClick ButtonAdd = PerformOperation (Some Add)"
| "onClick Button0 = InputDigit ''0''"
| "onClick ButtonDecimal = InputDigit ''.''"
| "onClick ButtonEquals = PerformOperation None"

text \<open>The string a button passes to \<^verbatim>\<open>inputDigit\<close>, empty for the other buttons.\<close>

definition onClick_digit :: "button \<Rightarrow> js_string" where
  "onClick_digit b = (case onClick b of InputDigit d \<Rightarrow> d | _ \<Rightarrow> [])"

text \<open>The key that does what a button does, for the buttons that have one.\<close>

fun button_key :: "button \<Rightarrow> js_string option" where
  "button_key ButtonClear = Some ''Escape''"
| "button_key ButtonNegate = None"
| "button_key ButtonPercent = None"
| "button_key ButtonDivide = Some ''/''"
| "button_key ButtonMultiply = Some ''*''"
| "button_key ButtonSubtract = Some ''-''"
| "button_key ButtonAdd = Some ''+''"
| "button_key ButtonEquals = Some ''Enter''"
| "button_key b = (case onClick b of InputDigit d \<Rightarrow> Some d | _ \<Rightarrow> None)"

section \<open>Properties\<close>

lemma digit_range_iff:
  "''0'' \<le> k \<and> k \<le> ''9'' \<longleftrightarrow>
     k = ''9'' \<or> (\<exists>c cs. k = c # cs \<and> CHR ''0'' \<le> c \<and> c < CHR ''9'')"
  by (cases k) (auto simp: less_le)

lemma key_action_digits:
  "\<forall>c \<in> set ''0123456789''. key_action (plain_key [c]) = Some (InputDigit [c])"
  by (simp add: key_action_def plain_key_def)

lemma key_action_plain_simps:
  "key_action (plain_key ''.'') = Some (InputDigit ''.'')"
  "key_action (plain_key ''+'') = Some (PerformOperation (Some Add))"
  "key_action (plain_key ''-'') = Some (PerformOperation (Some Subtract))"
  "key_action (plain_key ''*'') = Some (PerformOperation (Some Multiply))"
  "key_action (plain_key ''/'') = Some (PerformOperation (Some Divide))"
  "key_action (plain_key ''Enter'') = Some (PerformOperation None)"
  "key_action (plain_key ''='') = Some (PerformOperation None)"
  "key_action (plain_key ''Escape'') = Some ClearAll"
  "key_action (plain_key ''c'') = Some ClearAll"
  "key_action (plain_key ''C'') = Some ClearAll"
  "key_action (plain_key ''Backspace'') = Some HandleBackspace"
  by (simp_all add: key_action_def plain_key_def key_operator_def)

lemma onClick_digits:
  "map onClick [Button0, Button1, Button2, Button3, Button4, Button5, Button6, Button7,
      Button8, Button9, ButtonDecimal] = map InputDigit digit_keys"
  by (simp add: digit_keys_def)

lemma key_action_button:
  "button_key b = Some k \<Longrightarrow> key_action (plain_key k) = Some (onClick b)"
  using key_action_digits by (cases b) (auto simp: key_action_plain_simps)

text \<open>
  C29. A key pressed together with the meta, control or alt key is ignored:
  the listener leaves the engine state alone and does not prevent the
  browser's default action.
\<close>

theorem modifier_keys_ignored:
  assumes "metaKey e \<or> ctrlKey e \<or> altKey e"
  shows "handleKeyDown e s = (False, s)"
  using assms by (simp add: handleKeyDown_def key_action_def)

theorem modifier_keys_ignored_witness:
  "handleKeyDown \<lparr>key = ''c'', metaKey = False, ctrlKey = True, altKey = False\<rparr>
     (inputDigit ''5'' initial) = (False, inputDigit ''5'' initial)"
  by (rule modifier_keys_ignored) simp

text \<open>
  C28. Keyboard and keypad agree: for every button that has a key, pressing
  the key with no modifier prevents the default action and changes the state
  exactly as a click on the button does.
\<close>

theorem keyboard_matches_buttons:
  assumes "button_key b = Some k"
  shows "handleKeyDown (plain_key k) s = (True, handle (onClick b) s)"
  using key_action_button [OF assms] by (simp add: handleKeyDown_def)

theorem keyboard_matches_buttons_witness:
  "handleKeyDown (plain_key ''7'') initial = (True, handle (onClick Button7) initial)
   \<and> handleKeyDown (plain_key ''/'') initial = (True, handle (onClick ButtonDivide) initial)"
  using keyboard_matches_buttons [of Button7 "''7''" initial]
    keyboard_matches_buttons [of ButtonDivide "''/''" initial]
  by simp

lemma digit_key_button:
  assumes "d \<in> set digit_keys"
  shows "\<exists>b. onClick b = InputDigit d"
proof -
  from assms have "InputDigit d \<in> set (map InputDigit digit_keys)"
    by simp
  then have "InputDigit d \<in> onClick ` set [Button0, Button1, Button2, Button3, Button4,
      Button5, Button6, Button7, Button8, Button9, ButtonDecimal]"
    by (simp only: onClick_digits [symmetric] set_map)
  then obtain b where "InputDigit d = onClick b"
    by (rule imageE)
  then show ?thesis
    by (intro exI [of _ b]) simp
qed

lemma operation_button: "\<exists>b. onClick b = PerformOperation nextOperator"
proof (cases nextOperator)
  case None
  then show ?thesis
    by (intro exI [of _ ButtonEquals]) simp
next
  case (Some op)
  then show ?thesis
  proof (cases op)
    case Add
    with Some show ?thesis by (intro exI [of _ ButtonAdd]) simp
  next
    case Subtract
    with Some show ?thesis by (intro exI [of _ ButtonSubtract]) simp
  next
    case Multiply
    with Some show ?thesis by (intro exI [of _ ButtonMultiply]) simp
  next
    case Divide
    with Some show ?thesis by (intro exI [of _ ButtonDivide]) simp
  qed
qed

lemma onClick_user_event: "user_event (onClick b)"
  by (cases b) (simp_all add: digit_keys_def)

text \<open>
  C30. The events a user can raise are the events of the buttons and the
  backspace of the keyboard: every click is a user event of the engine, and
  every user event but backspace has a button.
\<close>

theorem user_events_are_button_events:
  "user_event ev \<longleftrightarrow> (\<exists>b. onClick b = ev) \<or> ev = HandleBackspace"
proof
  assume u: "user_event ev"
  show "(\<exists>b. onClick b = ev) \<or> ev = HandleBackspace"
  proof (cases ev)
    case (InputDigit d)
    with u digit_key_button show ?thesis by simp
  next
    case (PerformOperation nextOperator)
    with operation_button show ?thesis by simp
  next
    case ClearAll
    then show ?thesis by (intro disjI1 exI [of _ ButtonClear]) simp
  next
    case ToggleSign
    then show ?thesis by (intro disjI1 exI [of _ ButtonNegate]) simp
  next
    case InputPercent
    then show ?thesis by (intro disjI1 exI [of _ ButtonPercent]) simp
  next
    case HandleBackspace
    then show ?thesis by simp
  qed
next
  assume "(\<exists>b. onClick b = ev) \<or> ev = HandleBackspace"
  then show "user_event ev"
    using onClick_user_event by auto
qed

section \<open>Key names of several characters\<close>

lemma digit_key_between:
  assumes "is_digit c" "c \<noteq> CHR ''9''"
  shows "''0'' \<le> c # r \<and> c # r \<le> ''9''"
  using assms by (auto simp: is_digit_def)

lemma key_action_digit_prefix:
  assumes "is_digit c" "c \<noteq> CHR ''9''"
  shows "key_action (plain_key (c # r)) = Some (InputDigit (c # r))"
  using digit_key_between [OF assms, of r] by (simp add: key_action_def plain_key_def)

text \<open>
  C35. The digit guard of the listener compares strings, so it admits key
  names of several characters: every name that starts with one of the digits
  0 to 8 lies between \<^verbatim>\<open>"0"\<close> and \<^verbatim>\<open>"9"\<close>, is handed to \<^verbatim>\<open>inputDigit\<close> whole and,
  in a state that appends, lands on the display with all its characters,
  whatever they are and however many.
\<close>

theorem multi_character_key_accepted:
  assumes "is_digit c" "c \<noteq> CHR ''9''"
    and "display s \<noteq> ''Error''" "display s \<noteq> ''0''" "\<not> waitingForOperand s"
    and "length (display s) < 15"
  shows "handleKeyDown (plain_key (c # r)) s = (True, s\<lparr>display := display s @ c # r\<rparr>)"
proof -
  from assms(1) have "c \<noteq> CHR ''.''" by (auto simp: is_digit_def)
  with assms(3-6) show ?thesis
    by (simp add: handleKeyDown_def key_action_digit_prefix [OF assms(1,2)] inputDigit_def)
qed

theorem multi_character_key_accepted_witness:
  "handleKeyDown (plain_key ''1.2.3456789012345'') (initial\<lparr>display := ''7.5''\<rparr>) =
     (True, initial\<lparr>display := ''7.51.2.3456789012345''\<rparr>)"
  using multi_character_key_accepted [of "CHR ''1''" "initial\<lparr>display := ''7.5''\<rparr>" "''.2.3456789012345''"]
  by (simp add: is_digit_def initial_def)

end
