(* ===== verification/Theme.thy ===== *)
theory Theme
  imports Calc_Prelude
begin

text \<open>
  The theme preference of the page (Calculator.tsx lines 13--29): the state
  cell \<^verbatim>\<open>theme\<close>, the entry \<^verbatim>\<open>calculator-theme\<close> of the browser's local storage
  and the \<^verbatim>\<open>dark\<close> class of the document element. The cell is initialised from
  storage, an effect copies it to storage and to the class after every render
  in which it changed, and the toggle button flips it.
\<close>

section \<open>State and operations\<close>

record theme_state =
  theme :: js_string
  stored :: "js_string option"
  dark_class :: bool

text \<open>
  Lines 13--16: the saved value if there is one and it is not empty, whatever
  it says; the cast to the two theme names checks nothing.
\<close>

definition initial_theme :: "js_string option \<Rightarrow> js_string" where
  "initial_theme saved = (case saved of None \<Rightarrow> ''dark'' | Some v \<Rightarrow> or_else v ''dark'')"

text \<open>Lines 18--25: the effect that follows a render with a new theme.\<close>

definition theme_effect :: "theme_state \<Rightarrow> theme_state" where
  "theme_effect t = t\<lparr>dark_class := (theme t = ''dark''), stored := Some (theme t)\<rparr>"

text \<open>Lines 27--29.\<close>

definition toggleTheme :: "theme_state \<Rightarrow> theme_state" where
  "toggleTheme t = t\<lparr>theme := (if theme t = ''dark'' then ''light'' else ''dark'')\<rparr>"

text \<open>
  Mounting the page with the storage entry \<open>saved\<close> and the class as the
  document has it, and a click on the toggle button: each is a state change
  followed by the effect.
\<close>

definition mount_theme :: "js_string option \<Rightarrow> bool \<Rightarrow> theme_state" where
  "mount_theme saved cls =
     theme_effect \<lparr>theme = initial_theme saved, stored = saved, dark_class = cls\<rparr>"

definition click_theme_toggle :: "theme_state \<Rightarrow> theme_state" where
  "click_theme_toggle t = theme_effect (toggleTheme t)"

lemmas theme_defs =
  initial_theme_def theme_effect_def toggleTheme_def mount_theme_def click_theme_toggle_def

section \<open>Properties\<close>

definition theme_synced :: "theme_state \<Rightarrow> bool" where
  "theme_synced t \<longleftrightarrow> stored t = Some (theme t) \<and> dark_class t = (theme t = ''dark'')"

inductive theme_reachable :: "theme_state \<Rightarrow> bool" where
  mounted: "theme_reachable (mount_theme saved cls)"
| toggled: "theme_reachable t \<Longrightarrow> theme_reachable (click_theme_toggle t)"

lemma theme_effect_synced [simp]: "theme_synced (theme_effect t)"
  by (simp add: theme_synced_def theme_effect_def)

lemma theme_reachable_synced: "theme_reachable t \<Longrightarrow> theme_synced t"
  by (induction rule: theme_reachable.induct) (simp_all add: mount_theme_def click_theme_toggle_def)

lemma click_theme_toggle_theme:
  "theme (click_theme_toggle t) = (if theme t = ''dark'' then ''light'' else ''dark'')"
  by (simp add: theme_defs)

lemma theme_synced_toggle_twice:
  assumes "theme_synced t" "theme t = ''dark'' \<or> theme t = ''light''"
  shows "click_theme_toggle (click_theme_toggle t) = t"
  using assms by (cases t) (auto simp: theme_synced_def theme_defs)

text \<open>
  C32. After mounting and after every click on the toggle, the stored
  preference is the current theme and the document carries the dark class
  exactly when the theme is dark.
\<close>

theorem theme_storage_in_sync:
  assumes "theme_reachable t"
  shows "stored t = Some (theme t) \<and> dark_class t = (theme t = ''dark'')"
  using theme_reachable_synced [OF assms] by (simp add: theme_synced_def)

theorem theme_storage_in_sync_witness:
  "theme_reachable (click_theme_toggle (mount_theme None False))
   \<and> stored (click_theme_toggle (mount_theme None False)) = Some ''light''
   \<and> dark_class (click_theme_toggle (mount_theme None False)) = False"
proof -
  have r: "theme_reachable (click_theme_toggle (mount_theme None False))"
    by (intro theme_reachable.intros)
  have "theme (click_theme_toggle (mount_theme None False)) = ''light''"
    by (simp add: theme_defs)
  with r theme_storage_in_sync [OF r] show ?thesis
    by simp
qed

text \<open>
  C33. Toggling twice is the identity on every state of the page whose theme
  is one of the two theme names: the theme, the stored preference and the
  class all return.
\<close>

theorem theme_toggle_twice:
  assumes "theme_reachable t" and "theme t = ''dark'' \<or> theme t = ''light''"
  shows "click_theme_toggle (click_theme_toggle t) = t"
  using theme_synced_toggle_twice [OF theme_reachable_synced [OF assms(1)] assms(2)] .

theorem theme_toggle_twice_witness:
  "click_theme_toggle (click_theme_toggle (mount_theme (Some ''light'') True)) =
     mount_theme (Some ''light'') True"
proof -
  have "theme (mount_theme (Some ''light'') True) = ''light''"
    by (simp add: theme_defs)
  then show ?thesis
    by (intro theme_toggle_twice theme_reachable.mounted) simp
qed

text \<open>
  With no saved preference, or an empty one, the page starts dark, stores that
  choice and sets the dark class.
\<close>

lemma theme_default_dark:
  assumes "saved = None \<or> saved = Some []"
  shows "mount_theme saved cls = \<lparr>theme = ''dark'', stored = Some ''dark'', dark_class = True\<rparr>"
  using assms by (auto simp: theme_defs)

lemma theme_default_dark_example:
  "mount_theme None False = \<lparr>theme = ''dark'', stored = Some ''dark'', dark_class = True\<rparr>"
  by (rule theme_default_dark) simp

lemma mount_theme_saved:
  "v \<noteq> [] \<Longrightarrow> mount_theme (Some v) cls =
     \<lparr>theme = v, stored = Some v, dark_class = (v = ''dark'')\<rparr>"
  by (cases v) (simp_all add: theme_defs or_else_def)

text \<open>
  C34. The saved preference is not checked against the two theme names. Any
  saved string other than the empty one becomes the theme as it is; when it
  is neither \<^verbatim>\<open>dark\<close> nor \<^verbatim>\<open>light\<close> the page renders light, writes the string back
  to storage, the first toggle yields dark, and toggling twice arrives at
  light instead of returning to the saved value.
\<close>

theorem unrecognised_theme_kept:
  assumes "v \<noteq> []" "v \<noteq> ''dark''" "v \<noteq> ''light''"
  shows "mount_theme (Some v) cls = \<lparr>theme = v, stored = Some v, dark_class = False\<rparr>
    \<and> theme (click_theme_toggle (mount_theme (Some v) cls)) = ''dark''
    \<and> click_theme_toggle (click_theme_toggle (mount_theme (Some v) cls)) =
        \<lparr>theme = ''light'', stored = Some ''light'', dark_class = False\<rparr>"
  using assms by (simp add: mount_theme_saved) (simp add: theme_defs)

theorem unrecognised_theme_kept_witness:
  "mount_theme (Some ''blue'') True =
     \<lparr>theme = ''blue'', stored = Some ''blue'', dark_class = False\<rparr>
    \<and> theme (click_theme_toggle (mount_theme (Some ''blue'') True)) = ''dark''
    \<and> click_theme_toggle (click_theme_toggle (mount_theme (Some ''blue'') True)) =
        \<lparr>theme = ''light'', stored = Some ''light'', dark_class = False\<rparr>"
  by (rule unrecognised_theme_kept) simp_all

end
