(* ===== verification/JS_Number_Roundtrip.thy ===== *)
theory JS_Number_Roundtrip
  imports JS_Number_String JS_Number_Integer
begin

text \<open>
  Printing and parsing of integers. For an integer below \<open>2\<^sup>5\<^sup>3\<close> in magnitude
  the digit search of \<^verbatim>\<open>Number::toString\<close> stops at the digits of the integer
  without its trailing zeros, the layout puts the zeros back, and so the
  double of the integer prints as the decimal numeral \<open>show_int\<close> of the
  integer; \<^verbatim>\<open>parseFloat\<close> reads that numeral back to the same double.
\<close>

section \<open>The decimal numeral of an integer\<close>

definition show_int :: "int \<Rightarrow> string" where
  "show_int N = (if N < 0 then ''-'' else '''') @ digits_of \<bar>N\<bar>"

section \<open>Trailing zeros\<close>

lemma digits_of_times10: "0 < s \<Longrightarrow> digits_of (s * 10) = digits_of s @ ''0''"
  by (subst digits_of_step) (simp_all add: digit_char_def)

lemma digits_of_shift:
  "0 < s \<Longrightarrow> digits_of (s * 10 ^ t) = digits_of s @ replicate t (CHR ''0'')"
proof (induction t)
  case 0
  show ?case by simp
next
  case (Suc t)
  have "digits_of (s * 10 ^ Suc t) = digits_of (s * 10 ^ t * 10)"
    by (simp add: mult_ac)
  also have "\<dots> = digits_of (s * 10 ^ t) @ ''0''"
    using Suc.prems by (intro digits_of_times10) simp
  finally show ?case
    using Suc by (simp add: replicate_append_same)
qed

lemma trailing_zeros:
  fixes N :: int
  assumes "0 < N"
  obtains s t where "0 < s" "\<not> 10 dvd s" "N = s * 10 ^ t"
  using assms
proof (induction "nat N" arbitrary: N thesis rule: less_induct)
  case less
  show ?case
  proof (cases "10 dvd N")
    case False
    with less.prems(1) [of N 0] less.prems(2) show ?thesis by simp
  next
    case True
    then obtain M where M: "N = 10 * M" ..
    with less.prems(2) have "0 < M" "nat M < nat N" by simp_all
    from less.hyps [OF this(2) _ this(1)] obtain s t where
      "0 < s" "\<not> 10 dvd s" "M = s * 10 ^ t" by blast
    with M less.prems(1) [of s "Suc t"] show ?thesis by simp
  qed
qed

lemma power10_dvd_iff:
  fixes s :: int
  assumes "\<not> 10 dvd s"
  shows "(10 ^ j dvd s * 10 ^ t) = (j \<le> t)"
proof
  assume "j \<le> t"
  hence "(10::int) ^ j dvd 10 ^ t" by (rule le_imp_power_dvd)
  thus "10 ^ j dvd s * 10 ^ t" by (rule dvd_mult)
next
  assume d: "10 ^ j dvd s * 10 ^ t"
  show "j \<le> t"
  proof (rule ccontr)
    assume "\<not> j \<le> t"
    hence "t < j" by simp
    then obtain i where "j = Suc (t + i)" by (rule less_imp_Suc_add [THEN exE])
    hence j: "j = t + Suc i" by simp
    have "(10::int) ^ j = 10 ^ t * 10 ^ Suc i"
      unfolding j by (rule power_add)
    with d have "(10::int) ^ t * 10 ^ Suc i dvd 10 ^ t * s"
      by (simp only: mult.commute [of s "10 ^ t"])
    moreover have "(10::int) ^ t \<noteq> 0" by simp
    ultimately have "(10::int) ^ Suc i dvd s"
      by (simp only: dvd_mult_cancel_left simp_thms)
    moreover have "(10::int) dvd 10 ^ Suc i" by (rule dvd_power) simp
    ultimately have "10 dvd s" by (rule dvd_trans [rotated])
    with assms show False ..
  qed
qed

section \<open>The digit search\<close>

lemma digit_search_found:
  "candidate m e n k = Some r \<Longrightarrow> digit_search m e n k = r"
  by (subst digit_search.simps) simp

lemma digit_search_next:
  "candidate m e n k = None \<Longrightarrow> k < 17 \<Longrightarrow> digit_search m e n k = digit_search m e n (Suc k)"
  by (subst digit_search.simps) simp

lemma digit_search_last:
  "candidate m e n k = None \<Longrightarrow> 17 \<le> k \<Longrightarrow> digit_search m e n k = nearest_decimal m e n k"
  by (subst digit_search.simps) simp

lemma digit_search_first:
  assumes "k \<le> K" "K \<le> 17" "\<And>i. k \<le> i \<Longrightarrow> i < K \<Longrightarrow> candidate m e n i = None"
    and "candidate m e n K = Some r"
  shows "digit_search m e n k = r"
  using assms(1,3)
proof (induction k rule: inc_induct)
  case base
  from assms(4) show ?case by (rule digit_search_found)
next
  case (step k)
  from step.hyps(2) assms(2) have "k < 17" by simp
  moreover have "candidate m e n k = None"
    using step.prems [OF le_refl step.hyps(2)] .
  ultimately have "digit_search m e n k = digit_search m e n (Suc k)"
    by (intro digit_search_next)
  with step.IH step.prems show ?case by simp
qed

section \<open>The candidates for an integer\<close>

lemma decimal_value_int:
  "0 \<le> c \<Longrightarrow> 0 \<le> j \<Longrightarrow> decimal_value c j = number_of_int (c * 10 ^ nat j)"
  by (simp add: decimal_value_def round_frac_int)

lemma scaled_int: "0 \<le> e \<Longrightarrow> 0 \<le> j \<Longrightarrow> scaled m e j = (m * 2 ^ nat e, 10 ^ nat j)"
  by (simp add: scaled_def)

text \<open>
  The candidates for an integer \<open>N\<close> below \<open>2\<^sup>5\<^sup>3\<close>: with \<open>k\<close> digits there is
  one exactly when the digits dropped are zeros.
\<close>

lemma candidate_int:
  assumes "0 < N" "N < 2 ^ 53" "number_of_int N = Fin False m e" "N = m * 2 ^ nat e" "0 \<le> e"
    and "int k \<le> n"
  shows "candidate m e n k =
         (if 10 ^ nat (n - int k) dvd N then Some (N div 10 ^ nat (n - int k), n) else None)"
proof -
  define D :: int where "D = 10 ^ nat (n - int k)"
  define lo where "lo = N div D"
  define r where "r = N mod D"
  have D: "0 < D" by (simp add: D_def)
  have N: "N = lo * D + r" "0 \<le> r" "r < D" "0 \<le> lo"
    using D assms(1) by (simp_all add: lo_def r_def pos_imp_zdiv_nonneg_iff)
  have j: "0 \<le> n - int k" using assms(6) by simp
  have lo_ok: "(decimal_value lo (n - int k) = Fin False m e) = (r = 0)"
    unfolding decimal_value_int [OF N(4) j] assms(3) [symmetric] D_def [symmetric]
    using number_of_int_eq_iff [of N "lo * D"] assms(1,2) N D by auto
  have "lo * D + r < (lo + 1) * D" using N(3) by (simp add: algebra_simps)
  hence hi_ok: "decimal_value (lo + 1) (n - int k) \<noteq> Fin False m e"
    unfolding assms(3) [symmetric] D_def [symmetric]
    using decimal_value_int [of "lo + 1" "n - int k"] j N
      number_of_int_eq_iff [of N "(lo + 1) * D"] assms(1,2) D
    by (simp add: D_def)
  have dvd: "(D dvd N) = (r = 0)" by (simp add: r_def dvd_eq_mod_eq_0)
  show ?thesis
    unfolding candidate_def Let_def scaled_int [OF assms(5) j] fst_conv snd_conv
      assms(4) [symmetric] D_def [symmetric] lo_def [symmetric] r_def [symmetric]
    by (simp only: lo_ok hi_ok dvd simp_thms if_True if_False split: if_split)
qed

section \<open>Printing an integer\<close>

lemma shortest_decimal_int:
  assumes "0 < N" "N < 2 ^ 53" "number_of_int N = Fin False m e" "N = m * 2 ^ nat e" "0 \<le> e"
    and "0 < s" "\<not> 10 dvd s" "N = s * 10 ^ t"
  shows "shortest_decimal m e = (s, int (length (digits_of N)))"
proof -
  define K where "K = length (digits_of s)"
  define L where "L = length (digits_of N)"
  have L: "L = K + t"
    unfolding L_def K_def assms(8) using assms(6) by (simp add: digits_of_shift)
  have "L \<le> 16"
    unfolding L_def using assms(2) by (intro digits_of_length) simp_all
  hence K: "1 \<le> K" "K \<le> 17"
    using L digits_of_nonempty [of s] by (simp_all add: K_def Suc_le_eq)
  have n: "decimal_exponent (m * 2 ^ nat e) (2 ^ nat (- e)) = int L"
    using assms(1,5) by (simp add: decimal_exponent_def assms(4) [symmetric] L_def)
  note c = candidate_int [OF assms(1-5), of _ "int L"]
  have none: "candidate m e (int L) i = None" if "1 \<le> i" "i < K" for i
  proof -
    from that L have "nat (int L - int i) = K + t - i" "\<not> K + t - i \<le> t" by simp_all
    with c [of i] that L show ?thesis
      by (simp add: assms(8) power10_dvd_iff [OF assms(7)])
  qed
  have "nat (int L - int K) = t" using L by simp
  with c [of K] L have "candidate m e (int L) K = Some (s, int L)"
    using assms(6) by (simp add: assms(8) power10_dvd_iff [OF assms(7)])
  from digit_search_first [OF K none this] show ?thesis
    by (simp add: shortest_decimal_def n L_def)
qed

lemma number_toString_nat:
  assumes "0 < N" "N < 2 ^ 53"
  shows "number_toString (number_of_int N) = digits_of N"
proof -
  from assms have "N \<noteq> 0" "\<bar>N\<bar> < 2 ^ 53" by simp_all
  then obtain m j where m: "0 < m" "\<bar>N\<bar> = m * 2 ^ j"
    "number_of_int N = Fin (N < 0) m (int j)"
    by (rule number_of_int_odd_part)
  from assms(1) obtain s t where s: "0 < s" "\<not> 10 dvd s" "N = s * 10 ^ t"
    by (rule trailing_zeros)
  from m assms(1) have f: "number_of_int N = Fin False m (int j)" "N = m * 2 ^ nat (int j)"
    by simp_all
  have sd: "shortest_decimal m (int j) = (s, int (length (digits_of N)))"
    using assms f _ s by (rule shortest_decimal_int) simp
  have len: "length (digits_of N) = length (digits_of s) + t"
    unfolding s(3) using s(1) by (simp add: digits_of_shift)
  have "length (digits_of N) \<le> 16"
    using assms(2) by (intro digits_of_length) simp_all
  note len = len this
  hence "format_decimal (digits_of s) (int (length (digits_of N))) =
         digits_of s @ replicate t (CHR ''0'')"
    by (simp add: format_decimal_def)
  moreover have "digits_of N = digits_of s @ replicate t (CHR ''0'')"
    unfolding s(3) using s(1) by (rule digits_of_shift)
  ultimately show ?thesis
    using m(1) by (simp add: number_toString_def f(1) sd)
qed

lemma number_toString_negative:
  "m \<noteq> 0 \<Longrightarrow> number_toString (Fin True m e) = ''-'' @ number_toString (Fin False m e)"
  by (simp add: number_toString_def)

lemma number_toString_signed:
  assumes "\<bar>N\<bar> < 2 ^ 53"
  shows "number_toString (number_of_int N) = (if N < 0 then ''-'' else '''') @ digits_of \<bar>N\<bar>"
proof (cases N "0::int" rule: linorder_cases)
  case equal
  thus ?thesis by (simp add: number_toString_def)
next
  case greater
  with assms show ?thesis by (simp add: number_toString_nat)
next
  case less
  hence N: "0 < - N" "- N < 2 ^ 53" using assms by simp_all
  from N have "- N \<noteq> 0" "\<bar>- N\<bar> < 2 ^ 53" by simp_all
  then obtain m j where m: "0 < m" "number_of_int (- N) = Fin (- N < 0) m (int j)"
    by (rule number_of_int_form)
  from less have "number_of_int N = number_unaryMinus (number_of_int (- N))"
    by (simp add: number_unaryMinus_int)
  also have "\<dots> = Fin True m (int j)" using m(2) N(1) by simp
  finally have "number_toString (number_of_int N) = ''-'' @ number_toString (number_of_int (- N))"
    using m N(1) by (simp add: number_toString_negative)
  with less N show ?thesis by (simp add: number_toString_nat)
qed

lemma number_toString_int:
  "\<bar>N\<bar> < 2 ^ 53 \<Longrightarrow> number_toString (number_of_int N) = show_int N"
  unfolding show_int_def by (rule number_toString_signed)

section \<open>Reading it back\<close>

lemma parseFloat_minus_digits:
  assumes "list_all is_digit ds" "ds \<noteq> []"
  shows "parseFloat (CHR ''-'' # ds) = decimal_to_number True (value_digits ds) 0"
proof -
  from assms obtain c r where ds: "ds = c # r" "is_digit c" by (cases ds) auto
  have "take_sign (dropWhile is_white_space (CHR ''-'' # ds)) = (True, ds)"
    by (simp add: take_sign_def is_white_space_def)
  moreover have "\<not> prefix ''Infinity'' ds"
    unfolding ds(1) by (rule parse_head(2) [OF ds(2)])
  ultimately show ?thesis
    using assms by (intro parseFloat_integer_part) (simp_all add: list_all_iff)
qed

lemma decimal_to_number_neg:
  "0 < n \<Longrightarrow> decimal_to_number True n 0 = number_of_int (- n)"
  using round_frac_sign [of False n 1]
  by (simp add: decimal_to_number_def round_frac_int number_unaryMinus_int)

lemma parseFloat_signed_digits:
  "parseFloat ((if N < 0 then ''-'' else '''') @ digits_of \<bar>N\<bar>) = number_of_int N"
proof (cases "N < 0")
  case True
  hence "parseFloat (CHR ''-'' # digits_of \<bar>N\<bar>) = number_of_int (- \<bar>N\<bar>)"
    by (simp add: parseFloat_minus_digits digits_of_digits value_digits_digits_of
        decimal_to_number_neg)
  with True show ?thesis by simp
next
  case False
  thus ?thesis by (simp add: parseFloat_digits_of)
qed


lemma parseFloat_show_int: "parseFloat (show_int N) = number_of_int N"
  unfolding show_int_def by (rule parseFloat_signed_digits)

lemma show_int_length:
  assumes "10 ^ 15 \<le> i" "i < 2 ^ 53"
  shows "length (show_int i) = 16"
proof -
  have "i < 10 ^ 16" using assms(2) by simp
  with digits_of_length [of 16 i] digits_of_length_less [OF assms(1)] assms(1)
  show ?thesis by (simp add: show_int_def)
qed

text \<open>
  C17. \<^verbatim>\<open>toString\<close> prints integers as their decimal numerals: the double of
  an integer of magnitude below \<open>2\<^sup>5\<^sup>3\<close> prints as the digits of the integer,
  with a minus sign in front when it is negative, with no exponent, no point
  and no rounding.
\<close>

theorem integer_toString:
  assumes "\<bar>N\<bar> < 2 ^ 53"
  shows "number_toString (number_of_int N) = show_int N"
  using assms by (rule number_toString_int)

theorem integer_toString_witness:
  "number_toString (number_of_int (- 9007199254740991)) = ''-9007199254740991''"
proof -
  have "show_int (- 9007199254740991) = ''-9007199254740991''" by code_simp
  with integer_toString [of "- 9007199254740991"] show ?thesis by simp
qed

text \<open>
  C10. Printing and parsing are inverse on integers: for an integer of
  magnitude below \<open>2\<^sup>5\<^sup>3\<close>, \<^verbatim>\<open>parseFloat\<close> of the printed double is the double
  again, and printing the double parsed from the numeral of the integer gives
  the numeral back.
\<close>

theorem integer_round_trip:
  assumes "\<bar>N\<bar> < 2 ^ 53"
  shows "parseFloat (number_toString (number_of_int N)) = number_of_int N \<and>
         number_toString (parseFloat (show_int N)) = show_int N"
  using assms by (simp add: number_toString_int parseFloat_show_int)

theorem integer_round_trip_witness:
  "parseFloat (number_toString (number_of_int (- 1111111110111110))) =
     number_of_int (- 1111111110111110) \<and>
   number_toString (parseFloat ''-1111111110111110'') = ''-1111111110111110''"
proof -
  have "show_int (- 1111111110111110) = ''-1111111110111110''" by code_simp
  with integer_round_trip [of "- 1111111110111110"] show ?thesis by simp
qed

end
