(* ===== verification/Calculator_Integer.thy ===== *)
theory Calculator_Integer
  imports Calculator JS_Number_Roundtrip
begin

text \<open>
  The calculator on typed integers, end to end: the keys of a number of at
  most fifteen digits put exactly that number on the display, \<^verbatim>\<open>parseFloat\<close>
  reads it back without loss, and the four operators then compute on doubles
  what the integers give, as long as the result stays below \<open>2\<^sup>5\<^sup>3\<close>. \<open>int_op\<close>
  is the integer arithmetic the calculator is meant to perform; it is the
  reference the handlers of \<open>Calculator\<close> are compared with. A chain of
  operations is evaluated from left to right, each operator key applying the
  one before it (\<open>chain_keys\<close>, \<open>chain_value\<close>).
\<close>

section \<open>Typed numbers and the reference arithmetic\<close>

text \<open>The digit keys pressed for a string, one \<^verbatim>\<open>inputDigit\<close> call per character.\<close>

definition typed :: "js_string \<Rightarrow> event list" where
  "typed ds = map (\<lambda>c. InputDigit [c]) ds"

text \<open>
  A number as a user types it: at most fifteen digits (the length
  \<^verbatim>\<open>inputDigit\<close> accepts) and no leading zero.
\<close>

definition plain_number :: "js_string \<Rightarrow> bool" where
  "plain_number ds \<longleftrightarrow>
     ds \<noteq> [] \<and> list_all is_digit ds \<and> length ds \<le> 15 \<and> (hd ds = CHR ''0'' \<longrightarrow> ds = ''0'')"

text \<open>The operators on integers; division is taken where it is exact.\<close>

fun int_op :: "Operator \<Rightarrow> int \<Rightarrow> int \<Rightarrow> int" where
  "int_op Add a b = a + b"
| "int_op Subtract a b = a - b"
| "int_op Multiply a b = a * b"
| "int_op Divide a b = a div b"

text \<open>
  A chain \<open>a op\<^sub>1 b\<^sub>1 op\<^sub>2 b\<^sub>2 \<dots>\<close>: the keys pressed after the first operand, the
  integer it denotes when read from left to right without precedence, and the
  condition under which every intermediate result is an integer the doubles
  hold exactly. A product of a negative value with zero is left out, since it
  is the negative zero.
\<close>

fun chain_keys :: "(Operator \<times> int) list \<Rightarrow> event list" where
  "chain_keys [] = []"
| "chain_keys ((op, b) # r) = PerformOperation (Some op) # typed (digits_of b) @ chain_keys r"

fun chain_value :: "int \<Rightarrow> (Operator \<times> int) list \<Rightarrow> int" where
  "chain_value a [] = a"
| "chain_value a ((op, b) # r) = chain_value (int_op op a b) r"

fun chain_ok :: "int \<Rightarrow> (Operator \<times> int) list \<Rightarrow> bool" where
  "chain_ok a [] = True"
| "chain_ok a ((op, b) # r) \<longleftrightarrow>
     0 \<le> b \<and> b < 10 ^ 15 \<and> \<bar>int_op op a b\<bar> < 2 ^ 53 \<and>
     (op = Divide \<longrightarrow> b \<noteq> 0 \<and> b dvd a) \<and> (op = Multiply \<and> a < 0 \<longrightarrow> b \<noteq> 0) \<and>
     chain_ok (int_op op a b) r"

text \<open>The state after a first operand or a result, with the next operator chosen.\<close>

definition pending :: "js_string \<Rightarrow> int \<Rightarrow> Operator option \<Rightarrow> calc_state" where
  "pending d acc nextOperator =
     \<lparr>display = d, previousValue = Some (number_of_int acc), operator = nextOperator,
       waitingForOperand = True\<rparr>"

section \<open>Typing a number\<close>

lemma plain_number_digits_of:
  assumes "0 \<le> n" "n < 10 ^ 15"
  shows "plain_number (digits_of n)"
proof -
  have "length (digits_of n) \<le> 15"
    using assms(2) by (intro digits_of_length) simp_all
  moreover have "hd (digits_of n) = CHR ''0'' \<longrightarrow> digits_of n = ''0''"
    using digits_of_hd [of n] assms(1) by (cases "n = 0") auto
  ultimately show ?thesis
    by (simp add: plain_number_def digits_of_digits)
qed

lemma run_typed_snoc: "run (typed (ds @ [c])) s = inputDigit [c] (run (typed ds) s)"
  by (simp add: typed_def run_append)

lemma digits_not_Error: "list_all is_digit ds \<Longrightarrow> ds \<noteq> ''Error''"
  by (auto simp: is_digit_def)

lemma plain_number_butlast:
  assumes "plain_number (ds @ [c])" "ds \<noteq> []"
  shows "plain_number ds" "ds \<noteq> ''0''" "ds \<noteq> ''Error''" "length ds < 15" "is_digit c"
  using assms by (auto simp: plain_number_def hd_append is_digit_def)

lemma run_typed:
  assumes "plain_number ds" "display s \<noteq> ''Error''" "waitingForOperand s \<or> display s = ''0''"
  shows "run (typed ds) s = s\<lparr>display := ds, waitingForOperand := False\<rparr>"
proof -
  from assms(1) have "ds \<noteq> []" by (simp add: plain_number_def)
  from this assms(1) show ?thesis
  proof (induction ds rule: rev_nonempty_induct)
    case (single c)
    hence "[c] \<noteq> ''.''" by (auto simp: plain_number_def)
    with assms(2,3) show ?case
      by (cases "waitingForOperand s") (simp_all add: typed_def inputDigit_def)
  next
    case (snoc c ds)
    note p = plain_number_butlast [OF snoc.prems snoc.hyps(1)]
    from p(5) have "[c] \<noteq> ''.''" by auto
    with p(2-4) show ?case
      by (simp add: run_typed_snoc snoc.IH [OF p(1)] inputDigit_def)
  qed
qed

section \<open>Operations on integer operands\<close>

lemma calculate_int:
  assumes "\<bar>a\<bar> < 2 ^ 53" "0 \<le> b" "b < 2 ^ 53" "\<bar>int_op op a b\<bar> < 2 ^ 53"
    and "op = Divide \<longrightarrow> b \<noteq> 0 \<and> b dvd a" "op = Multiply \<and> a < 0 \<longrightarrow> b \<noteq> 0"
  shows "calculate op (number_of_int a) (number_of_int b) =
         Some (number_of_int (int_op op a b))"
proof (cases op)
  case Add
  with assms show ?thesis by (simp add: number_add_int)
next
  case Subtract
  with assms show ?thesis by (simp add: number_subtract_int)
next
  case Multiply
  with assms show ?thesis by (simp add: number_multiply_int_signed)
next
  case Divide
  with assms show ?thesis by (simp add: number_divide_int_signed is_zero_number_of_int)
qed

lemma formattedValue_int:
  "\<bar>i\<bar> < 2 ^ 53 \<Longrightarrow> formattedValue (number_of_int i) = show_int i"
  by (simp add: formattedValue_def isInteger_number_of_int number_toString_int)

section \<open>Chains of operations\<close>

lemma show_int_not_Error [simp]: "show_int i \<noteq> ''Error''"
  using digits_not_Error [OF digits_of_digits, of "\<bar>i\<bar>"]
  by (auto simp: show_int_def)

lemma first_operand:
  assumes "0 \<le> a" "a < 10 ^ 15"
  shows "performOperation nextOperator (run (typed (digits_of a)) initial) =
         pending (show_int a) a nextOperator"
proof -
  note pa = plain_number_digits_of [OF assms]
  have "run (typed (digits_of a)) initial = initial\<lparr>display := digits_of a\<rparr>"
    by (subst run_typed [OF pa]) (simp_all add: initial_def)
  with assms(1) show ?thesis
    by (simp add: performOperation_first digits_not_Error digits_of_digits initial_def
        parseFloat_digits_of pending_def show_int_def)
qed

lemma next_operand:
  assumes "\<bar>acc\<bar> < 2 ^ 53" "0 \<le> b" "b < 10 ^ 15" "\<bar>int_op op acc b\<bar> < 2 ^ 53"
    and "op = Divide \<longrightarrow> b \<noteq> 0 \<and> b dvd acc" "op = Multiply \<and> acc < 0 \<longrightarrow> b \<noteq> 0"
    and "d \<noteq> ''Error''"
  shows "performOperation nextOperator (run (typed (digits_of b)) (pending d acc (Some op))) =
         pending (show_int (int_op op acc b)) (int_op op acc b) nextOperator"
proof -
  note pb = plain_number_digits_of [OF assms(2,3)]
  from assms(3) have b: "b < 2 ^ 53" by simp
  have s: "run (typed (digits_of b)) (pending d acc (Some op)) =
           (pending d acc (Some op))\<lparr>display := digits_of b, waitingForOperand := False\<rparr>"
    using assms(7) by (intro run_typed [OF pb]) (simp_all add: pending_def)
  let ?s = "(pending d acc (Some op))\<lparr>display := digits_of b, waitingForOperand := False\<rparr>"
  have "calculate op (number_of_int acc) (parseFloat (display ?s)) =
        Some (number_of_int (int_op op acc b))"
    using assms(2) calculate_int [OF assms(1,2) b assms(4-6)]
    by (simp add: parseFloat_digits_of)
  from performOperation_result [OF _ _ _ this, of nextOperator] show ?thesis
    unfolding s
    by (simp add: pending_def digits_not_Error digits_of_digits formattedValue_int [OF assms(4)])
qed

lemma run_chain:
  assumes "\<bar>acc\<bar> < 2 ^ 53" "chain_ok acc ((op, b) # r)" "d \<noteq> ''Error''"
  shows "run (typed (digits_of b) @ chain_keys r @ [PerformOperation nextOperator])
           (pending d acc (Some op)) =
         pending (show_int (chain_value acc ((op, b) # r))) (chain_value acc ((op, b) # r))
           nextOperator"
  using assms
proof (induction r arbitrary: acc op b d)
  case Nil
  then show ?case by (simp add: next_operand)
next
  case (Cons x r)
  obtain op' c where x: "x = (op', c)" by (cases x)
  from Cons.prems have "performOperation (Some op') (run (typed (digits_of b)) (pending d acc (Some op)))
      = pending (show_int (int_op op acc b)) (int_op op acc b) (Some op')"
    by (intro next_operand) simp_all
  moreover from Cons.prems have "\<bar>int_op op acc b\<bar> < 2 ^ 53" "chain_ok (int_op op acc b) ((op', c) # r)"
    by (simp_all add: x)
  ultimately show ?case
    using Cons.IH [of "int_op op acc b" op' c "show_int (int_op op acc b)"]
    by (simp add: x)
qed

lemma toggleSign_show_int:
  assumes "i \<noteq> 0" "\<bar>i\<bar> < 2 ^ 53" "display s = show_int i"
  shows "toggleSign s = s\<lparr>display := show_int (- i)\<rparr>"
  using assms
  by (simp add: toggleSign_def parseFloat_show_int number_negate_int number_toString_int)

lemma typed_user_events: "list_all is_digit ds \<Longrightarrow> list_all user_event (typed ds)"
  by (induction ds) (auto simp: typed_def digit_keys_def is_digit_def)

lemma chain_keys_user_events: "list_all user_event (chain_keys r)"
  by (induction r rule: chain_keys.induct) (simp_all add: typed_user_events digits_of_digits)

section \<open>Calculations\<close>

text \<open>
  C2. Integer calculations are right. Typing a number of at most fifteen
  digits, an operator key, a second such number and equals, from the initial
  state, leaves the calculator showing the decimal numeral of the integer
  result of the operation, with the double of that integer stored, no operator pending and the next digit starting a new number. This
  holds for every sum and difference of such numbers, for products below
  \<open>2\<^sup>5\<^sup>3\<close> and for quotients that are exact.
\<close>

theorem integer_calculation:
  assumes "0 \<le> a" "a < 10 ^ 15" "0 \<le> b" "b < 10 ^ 15"
    and "\<bar>int_op op a b\<bar> < 2 ^ 53" "op = Divide \<longrightarrow> b \<noteq> 0 \<and> b dvd a"
  shows "run (typed (digits_of a) @ [PerformOperation (Some op)] @ typed (digits_of b) @
              [PerformOperation None]) initial =
         \<lparr>display = show_int (int_op op a b),
          previousValue = Some (number_of_int (int_op op a b)),
          operator = None, waitingForOperand = True\<rparr>"
proof -
  from assms(1,2) have "\<bar>a\<bar> < 2 ^ 53" by simp
  from next_operand [OF this assms(3-6), of "show_int a" None]
    first_operand [OF assms(1,2), of "Some op"] assms(1)
  show ?thesis by (simp add: pending_def)
qed

theorem integer_calculation_witness:
  "run (typed ''123456789012345'' @ [PerformOperation (Some Add)] @ typed ''987654321098765'' @
        [PerformOperation None]) initial =
   \<lparr>display = ''1111111110111110'',
    previousValue = Some (number_of_int 1111111110111110),
    operator = None, waitingForOperand = True\<rparr>"
proof -
  have d: "digits_of 123456789012345 = ''123456789012345''"
    "digits_of 987654321098765 = ''987654321098765''"
    "show_int 1111111110111110 = ''1111111110111110''"
    by code_simp+
  from integer_calculation [of 123456789012345 987654321098765 Add] show ?thesis
    by (simp add: d)
qed

text \<open>
  C14. Chains are evaluated from left to right. Typing a number and then any
  sequence of operator keys and numbers, closed by equals, shows the decimal
  numeral of the value obtained by applying the operators in the order they
  were pressed, each to the result so far and the number typed after it,
  with no precedence of multiplication over addition. This holds whenever
  every intermediate result is an integer below \<open>2\<^sup>5\<^sup>3\<close> in magnitude, negative
  ones included.
\<close>

theorem integer_chain:
  assumes "0 \<le> a" "a < 10 ^ 15" "chain_ok a r"
  shows "run (typed (digits_of a) @ chain_keys r @ [PerformOperation None]) initial =
         \<lparr>display = show_int (chain_value a r),
          previousValue = Some (number_of_int (chain_value a r)),
          operator = None, waitingForOperand = True\<rparr>"
proof (cases r)
  case Nil
  with first_operand [OF assms(1,2)] show ?thesis by (simp add: pending_def)
next
  case (Cons x r')
  obtain op b where x: "x = (op, b)" by (cases x)
  from assms(2) have "\<bar>a\<bar> < 2 ^ 53" using assms(1) by simp
  from run_chain [OF this, of op b r' "show_int a" None] assms(3)
    first_operand [OF assms(1,2), of "Some op"]
  show ?thesis by (simp add: Cons x pending_def)
qed

theorem integer_chain_witness:
  "run (typed ''4'' @ [PerformOperation (Some Add)] @ typed ''2'' @
        [PerformOperation (Some Multiply)] @ typed ''3'' @ [PerformOperation (Some Subtract)] @
        typed ''20'' @ [PerformOperation None]) initial =
   \<lparr>display = ''-2'', previousValue = Some (number_of_int (- 2)),
    operator = None, waitingForOperand = True\<rparr>"
proof -
  have d: "digits_of 4 = ''4''" "digits_of 2 = ''2''" "digits_of 3 = ''3''"
    "digits_of 20 = ''20''" "show_int (- 2) = ''-2''"
    by code_simp+
  from integer_chain [of 4 "[(Add, 2), (Multiply, 3), (Subtract, 20)]"] show ?thesis
    by (simp add: d)
qed

text \<open>
  C21. The calculator can always be brought to show a given number: from any
  state whatsoever, the error state included, the clear key followed by the
  digit keys of a number of at most fifteen digits leaves that number on the
  display, with nothing stored and no operator pending.
\<close>

theorem always_accepts_number:
  assumes "plain_number ds"
  shows "run (ClearAll # typed ds) s = initial\<lparr>display := ds\<rparr>"
proof -
  have "clearAll s = initial" by (simp add: clearAll_def initial_def)
  with run_typed [OF assms, of initial] show ?thesis
    by (simp add: initial_def)
qed

theorem always_accepts_number_witness:
  "run (ClearAll # typed ''42'')
     \<lparr>display = ''Error'', previousValue = None, operator = None, waitingForOperand = True\<rparr> =
   initial\<lparr>display := ''42''\<rparr>"
  by (rule always_accepts_number) (simp add: plain_number_def is_digit_def)

section \<open>Results longer than the display limit\<close>

text \<open>
  C24. The limit of fifteen characters holds for typed input only. A sum or a
  product of two typed numbers that reaches \<open>10\<^sup>1\<^sup>5\<close> is shown with all its
  sixteen digits, in a state reachable with the keypad.
\<close>

theorem result_exceeds_limit:
  assumes "0 \<le> a" "a < 10 ^ 15" "0 \<le> b" "b < 10 ^ 15"
    and "op = Add \<or> op = Multiply" "10 ^ 15 \<le> int_op op a b" "int_op op a b < 2 ^ 53"
  shows "reachable (run (typed (digits_of a) @ chain_keys [(op, b)] @ [PerformOperation None])
           initial)
       \<and> length (display (run (typed (digits_of a) @ chain_keys [(op, b)] @
           [PerformOperation None]) initial)) = 16"
proof -
  let ?evs = "typed (digits_of a) @ chain_keys [(op, b)] @ [PerformOperation None]"
  have "list_all user_event ?evs"
    using chain_keys_user_events [of "[(op, b)]"]
    by (simp add: typed_user_events digits_of_digits)
  hence "reachable (run ?evs initial)"
    by (rule reachable_run [OF reachable.start])
  moreover have "chain_ok a [(op, b)]"
    using assms by auto
  from first_operand [OF assms(1,2), of "Some op"] run_chain [of a op b "[]" "show_int a" None] this
  have "display (run ?evs initial) = show_int (int_op op a b)"
    using assms(1,2) by (simp add: pending_def)
  ultimately show ?thesis
    using show_int_length [OF assms(6,7)] by simp
qed

theorem result_exceeds_limit_witness:
  "length (display (run (typed (digits_of 999999999999999) @
       chain_keys [(Add, 999999999999999)] @ [PerformOperation None]) initial)) = 16"
  using result_exceeds_limit [of 999999999999999 999999999999999 Add] by simp

text \<open>
  C25. The sign key on a typed integer: it puts a minus sign in front of the
  digits, a second press removes it again, and the display of a number of
  fifteen digits grows to sixteen characters.
\<close>

theorem toggleSign_typed_integer:
  assumes "0 < n" "n < 10 ^ 15"
  shows "run (typed (digits_of n) @ [ToggleSign]) initial =
           initial\<lparr>display := CHR ''-'' # digits_of n\<rparr>
       \<and> run (typed (digits_of n) @ [ToggleSign, ToggleSign]) initial =
           initial\<lparr>display := digits_of n\<rparr>
       \<and> (10 ^ 14 \<le> n \<longrightarrow>
            length (display (run (typed (digits_of n) @ [ToggleSign]) initial)) = 16)"
proof -
  have n: "n \<noteq> 0" "\<bar>n\<bar> < 2 ^ 53" "- n \<noteq> 0" "\<bar>- n\<bar> < 2 ^ 53"
    using assms by simp_all
  have s: "run (typed (digits_of n)) initial = initial\<lparr>display := digits_of n\<rparr>"
    using assms by (subst run_typed [OF plain_number_digits_of]) (simp_all add: initial_def)
  have d: "show_int n = digits_of n" "show_int (- n) = CHR ''-'' # digits_of n"
    using assms(1) by (simp_all add: show_int_def)
  have t1: "toggleSign (initial\<lparr>display := digits_of n\<rparr>) =
            initial\<lparr>display := CHR ''-'' # digits_of n\<rparr>"
    using toggleSign_show_int [OF n(1,2), of "initial\<lparr>display := digits_of n\<rparr>"]
    by (simp add: d)
  have t2: "toggleSign (initial\<lparr>display := CHR ''-'' # digits_of n\<rparr>) =
            initial\<lparr>display := digits_of n\<rparr>"
    using toggleSign_show_int [OF n(3,4), of "initial\<lparr>display := CHR ''-'' # digits_of n\<rparr>"]
    by (simp add: d)
  have "10 ^ 14 \<le> n \<Longrightarrow> length (digits_of n) = 15"
    using digits_of_length [of 15 n] digits_of_length_less [of 14 n] assms(2) by simp
  with s t1 t2 show ?thesis by simp
qed

theorem toggleSign_typed_integer_witness:
  "run (typed ''999999999999999'' @ [ToggleSign]) initial =
     initial\<lparr>display := ''-999999999999999''\<rparr>
   \<and> run (typed ''999999999999999'' @ [ToggleSign, ToggleSign]) initial =
     initial\<lparr>display := ''999999999999999''\<rparr>"
proof -
  have d: "digits_of 999999999999999 = ''999999999999999''"
    by code_simp
  have "(0::int) < 999999999999999" "(999999999999999::int) < 10 ^ 15"
    by simp_all
  from toggleSign_typed_integer [OF this] show ?thesis
    unfolding d by blast
qed

end
