(* ===== verification/Hooks.thy ===== *)
theory Hooks
  imports Interface
begin

text \<open>
  The component as React runs it (Calculator.tsx lines 8--168): the handlers
  are function objects kept by \<^verbatim>\<open>useCallback\<close>, each reading the state cells of
  the render that created it, and each doing its work by calling setters; the
  \<^verbatim>\<open>keydown\<close> listener is registered by an effect that holds four of these
  callbacks and is replaced when one of them changes. \<open>calls\<close> gives the setter
  calls of a handler from the state it sees, \<open>deps\<close> the dependency arrays,
  \<open>rerender\<close> one render with its effect, \<open>keydown\<close> and \<open>click\<close> the two ways an
  event reaches a handler. The lemmas show that the dependency arrays are
  complete, so no handler ever reads a stale cell, that exactly one listener is
  registered while the component is mounted, and that the component therefore
  computes what the state functions of \<open>Calculator\<close> compute.
\<close>

section \<open>Setter calls\<close>

text \<open>The four setters of lines 9--12, with the value passed.\<close>

datatype setter =
    SetDisplay js_string
  | SetPreviousValue "number option"
  | SetOperator "Operator option"
  | SetWaitingForOperand bool

text \<open>A setter replaces one cell; the calls of one event are applied in order.\<close>

fun apply_setter :: "setter \<Rightarrow> calc_state \<Rightarrow> calc_state" where
  "apply_setter (SetDisplay d) s = s\<lparr>display := d\<rparr>"
| "apply_setter (SetPreviousValue v) s = s\<lparr>previousValue := v\<rparr>"
| "apply_setter (SetOperator op) s = s\<lparr>operator := op\<rparr>"
| "apply_setter (SetWaitingForOperand w) s = s\<lparr>waitingForOperand := w\<rparr>"

definition commit :: "setter list \<Rightarrow> calc_state \<Rightarrow> calc_state" where
  "commit calls s = fold apply_setter calls s"

text \<open>
  The bodies of the six handlers as the setter calls they make, branch by
  branch, reading the cells of the state \<open>c\<close> they close over.
\<close>

definition inputDigit_calls :: "js_string \<Rightarrow> calc_state \<Rightarrow> setter list" where
  "inputDigit_calls digit c =
     (if display c = ''Error'' then
        [SetDisplay digit, SetPreviousValue None, SetOperator None, SetWaitingForOperand False]
      else if waitingForOperand c then [SetDisplay digit, SetWaitingForOperand False]
      else if display c = ''0'' \<and> digit \<noteq> ''.'' then [SetDisplay digit]
      else if digit = ''.'' \<and> js_includes (display c) ''.'' then []
      else if length (display c) < 15 then [SetDisplay (display c @ digit)]
      else [])"

definition performOperation_calls :: "Operator option \<Rightarrow> calc_state \<Rightarrow> setter list" where
  "performOperation_calls nextOperator c =
     (if display c = ''Error'' then
        [SetDisplay ''0'', SetPreviousValue None, SetOperator None, SetWaitingForOperand False]
      else
        let inputValue = parseFloat (display c);
            rest = [SetWaitingForOperand True, SetOperator nextOperator]
        in case previousValue c of
             None \<Rightarrow> SetPreviousValue (Some inputValue) # rest
           | Some currentValue \<Rightarrow>
               (case operator c of
                  None \<Rightarrow> rest
                | Some op \<Rightarrow>
                    (case calculate op currentValue inputValue of
                       None \<Rightarrow>
                         [SetDisplay ''Error'', SetPreviousValue None, SetOperator None,
                          SetWaitingForOperand True]
                     | Some newValue \<Rightarrow>
                         SetDisplay (formattedValue newValue) #
                         SetPreviousValue (Some newValue) # rest)))"

definition clearAll_calls :: "setter list" where
  "clearAll_calls =
     [SetDisplay ''0'', SetPreviousValue None, SetOperator None, SetWaitingForOperand False]"

definition toggleSign_calls :: "calc_state \<Rightarrow> setter list" where
  "toggleSign_calls c =
     (if display c = ''Error'' then []
      else
        let value = parseFloat (display c)
        in [SetDisplay (number_toString (number_multiply value (number_of_int (- 1))))])"

definition inputPercent_calls :: "calc_state \<Rightarrow> setter list" where
  "inputPercent_calls c =
     (if display c = ''Error'' then []
      else
        let value = parseFloat (display c)
        in [SetDisplay (number_toString (number_divide value (number_of_int 100)))])"

definition handleBackspace_calls :: "calc_state \<Rightarrow> setter list" where
  "handleBackspace_calls c =
     (if \<not> waitingForOperand c \<and> display c \<noteq> ''0'' \<and> display c \<noteq> ''Error'' then
        let newDisplay = slice_0_minus1 (display c)
        in [SetDisplay (or_else newDisplay ''0'')]
      else [])"

fun calls :: "event \<Rightarrow> calc_state \<Rightarrow> setter list" where
  "calls (InputDigit d) c = inputDigit_calls d c"
| "calls (PerformOperation nextOperator) c = performOperation_calls nextOperator c"
| "calls ClearAll c = clearAll_calls"
| "calls ToggleSign c = toggleSign_calls c"
| "calls InputPercent c = inputPercent_calls c"
| "calls HandleBackspace c = handleBackspace_calls c"

lemmas calls_defs =
  inputDigit_calls_def performOperation_calls_def clearAll_calls_def toggleSign_calls_def
  inputPercent_calls_def handleBackspace_calls_def commit_def

section \<open>Callbacks and their dependencies\<close>

text \<open>The six \<^verbatim>\<open>useCallback\<close> values and their dependency arrays.\<close>

datatype callback =
    InputDigit_cb | PerformOperation_cb | ClearAll_cb | ToggleSign_cb | InputPercent_cb
  | HandleBackspace_cb

fun callback_of :: "event \<Rightarrow> callback" where
  "callback_of (InputDigit d) = InputDigit_cb"
| "callback_of (PerformOperation nextOperator) = PerformOperation_cb"
| "callback_of ClearAll = ClearAll_cb"
| "callback_of ToggleSign = ToggleSign_cb"
| "callback_of InputPercent = InputPercent_cb"
| "callback_of HandleBackspace = HandleBackspace_cb"

datatype cell = Display_cell | PreviousValue_cell | Operator_cell | WaitingForOperand_cell

fun deps :: "callback \<Rightarrow> cell list" where
  "deps InputDigit_cb = [Display_cell, WaitingForOperand_cell]"
| "deps PerformOperation_cb = [Display_cell, Operator_cell, PreviousValue_cell]"
| "deps ClearAll_cb = []"
| "deps ToggleSign_cb = [Display_cell]"
| "deps InputPercent_cb = [Display_cell]"
| "deps HandleBackspace_cb = [Display_cell, WaitingForOperand_cell]"

text \<open>
  React compares dependencies with \<^verbatim>\<open>Object.is\<close>, which on numbers is equality of
  the value as a term: NaN is NaN, and the two zeros differ.
\<close>

fun cell_same :: "cell \<Rightarrow> calc_state \<Rightarrow> calc_state \<Rightarrow> bool" where
  "cell_same Display_cell c s = (display c = display s)"
| "cell_same PreviousValue_cell c s = (previousValue c = previousValue s)"
| "cell_same Operator_cell c s = (operator c = operator s)"
| "cell_same WaitingForOperand_cell c s = (waitingForOperand c = waitingForOperand s)"

definition deps_same :: "callback \<Rightarrow> calc_state \<Rightarrow> calc_state \<Rightarrow> bool" where
  "deps_same cb c s = list_all (\<lambda>x. cell_same x c s) (deps cb)"

section \<open>Renders, effects and the keydown listener\<close>

text \<open>
  A function object: the render that made it and the cells it closes over. A
  listener: the render whose effect registered it and the callbacks it holds.
\<close>

record closure =
  made :: nat
  sees :: calc_state

record handler =
  registered_in :: nat
  holds :: "callback \<Rightarrow> closure"

record component =
  cells :: calc_state
  renders :: nat
  callbacks :: "callback \<Rightarrow> closure"
  window_listeners :: "handler list"
  cleanup :: "nat option"

text \<open>\<^verbatim>\<open>useCallback\<close> keeps the old function object while the dependencies are the same.\<close>

definition useCallback :: "nat \<Rightarrow> calc_state \<Rightarrow> callback \<Rightarrow> closure \<Rightarrow> closure" where
  "useCallback n s cb old =
     (if deps_same cb (sees old) s then old else \<lparr>made = n, sees = s\<rparr>)"

text \<open>The dependency array of the keyboard effect (line 168).\<close>

definition keyboard_deps :: "callback list" where
  "keyboard_deps = [InputDigit_cb, PerformOperation_cb, ClearAll_cb, HandleBackspace_cb]"

text \<open>The cleanup of line 167 removes the listener its effect registered.\<close>

definition removeEventListener :: "nat option \<Rightarrow> handler list \<Rightarrow> handler list" where
  "removeEventListener h ls =
     (case h of None \<Rightarrow> ls | Some n \<Rightarrow> filter (\<lambda>l. registered_in l \<noteq> n) ls)"

text \<open>The first render and its effect.\<close>

definition mount :: component where
  "mount =
     (let cbs = (\<lambda>cb. \<lparr>made = 0, sees = initial\<rparr>)
      in \<lparr>cells = initial, renders = 0, callbacks = cbs,
          window_listeners = [\<lparr>registered_in = 0, holds = cbs\<rparr>], cleanup = Some 0\<rparr>)"

text \<open>
  A render after the cells have become \<open>s\<close>: new callbacks where dependencies
  changed, and, when one of the four the effect depends on is new, the cleanup
  of the old listener followed by the registration of a new one.
\<close>

definition rerender :: "calc_state \<Rightarrow> component \<Rightarrow> component" where
  "rerender s c =
     (let n = Suc (renders c);
          cbs = (\<lambda>cb. useCallback n s cb (callbacks c cb))
      in if list_ex (\<lambda>cb. made (cbs cb) \<noteq> made (callbacks c cb)) keyboard_deps then
           c\<lparr>cells := s, renders := n, callbacks := cbs,
             window_listeners :=
               removeEventListener (cleanup c) (window_listeners c) @
               [\<lparr>registered_in = n, holds = cbs\<rparr>],
             cleanup := Some n\<rparr>
         else c\<lparr>cells := s, renders := n, callbacks := cbs\<rparr>)"

definition unmount :: "component \<Rightarrow> component" where
  "unmount c =
     c\<lparr>window_listeners := removeEventListener (cleanup c) (window_listeners c),
       cleanup := None\<rparr>"

text \<open>
  A key press runs every registered listener, a click the handler bound in the
  last render; the setter calls are committed and the component renders again.
\<close>

definition listener_calls :: "keyboard_event \<Rightarrow> handler \<Rightarrow> setter list" where
  "listener_calls e l =
     (case key_action e of
        None \<Rightarrow> []
      | Some ev \<Rightarrow> calls ev (sees (holds l (callback_of ev))))"

definition keydown :: "keyboard_event \<Rightarrow> component \<Rightarrow> component" where
  "keydown e c =
     rerender (commit (concat (map (listener_calls e) (window_listeners c))) (cells c)) c"

definition click :: "button \<Rightarrow> component \<Rightarrow> component" where
  "click b c =
     rerender
       (commit (calls (onClick b) (sees (callbacks c (callback_of (onClick b))))) (cells c)) c"

text \<open>
  The components that arise while the page is shown: after mounting, key
  presses, clicks, and renders caused by a cell the handlers do not read (the
  theme).
\<close>

inductive mounted :: "component \<Rightarrow> bool" where
  first: "mounted mount"
| key: "mounted c \<Longrightarrow> mounted (keydown e c)"
| press: "mounted c \<Longrightarrow> mounted (click b c)"
| other: "mounted c \<Longrightarrow> mounted (rerender (cells c) c)"

text \<open>
  The invariant: every callback agrees with the current cells on its
  dependencies, and the one registered listener holds the current callbacks.
\<close>

definition component_ok :: "component \<Rightarrow> bool" where
  "component_ok c \<longleftrightarrow>
     (\<forall>cb. deps_same cb (sees (callbacks c cb)) (cells c) \<and> made (callbacks c cb) \<le> renders c) \<and>
     (\<exists>n h. window_listeners c = [\<lparr>registered_in = n, holds = h\<rparr>] \<and> cleanup c = Some n \<and>
        (\<forall>cb \<in> set keyboard_deps. h cb = callbacks c cb))"

section \<open>Equivalence with the state functions\<close>

lemma commit_calls: "commit (calls ev s) s = handle ev s"
  by (cases ev)
     (simp_all add: calls_defs handler_defs Let_def split: option.splits)

lemma calls_deps: "deps_same (callback_of ev) c s \<Longrightarrow> calls ev c = calls ev s"
  by (cases ev) (auto simp: calls_defs deps_same_def Let_def split: option.splits)

section \<open>The invariant of a mounted component\<close>

lemma deps_same_refl [simp]: "deps_same cb s s"
  by (cases cb) (simp_all add: deps_same_def)

lemma useCallback_deps [simp]: "deps_same cb (sees (useCallback n s cb old)) s"
  by (simp add: useCallback_def)

lemma useCallback_made:
  "made old \<le> m \<Longrightarrow> m < n \<Longrightarrow> made (useCallback n s cb old) \<le> n"
  by (simp add: useCallback_def)

lemma useCallback_same:
  "made old < n \<Longrightarrow> made (useCallback n s cb old) = made old \<Longrightarrow> useCallback n s cb old = old"
  by (auto simp: useCallback_def split: if_splits)

lemma mount_ok: "component_ok mount"
  by (simp add: component_ok_def mount_def Let_def)

lemma rerender_ok:
  assumes "component_ok c"
  shows "component_ok (rerender s c)"
proof -
  let ?n = "Suc (renders c)"
  let ?cbs = "\<lambda>cb. useCallback ?n s cb (callbacks c cb)"
  from assms obtain n h where l: "window_listeners c = [\<lparr>registered_in = n, holds = h\<rparr>]"
    "cleanup c = Some n" "\<forall>cb \<in> set keyboard_deps. h cb = callbacks c cb"
    and m: "\<And>cb. made (callbacks c cb) \<le> renders c"
    unfolding component_ok_def by blast
  have made: "made (?cbs cb) \<le> ?n" for cb
    using m [of cb] by (intro useCallback_made [where m = "renders c"]) simp_all
  show ?thesis
  proof (cases "list_ex (\<lambda>cb. made (?cbs cb) \<noteq> made (callbacks c cb)) keyboard_deps")
    case True
    thus ?thesis
      using made l(1,2)
      by (simp add: component_ok_def rerender_def Let_def removeEventListener_def)
  next
    case False
    hence "\<forall>cb \<in> set keyboard_deps. ?cbs cb = callbacks c cb"
      using m by (auto simp: list_ex_iff le_imp_less_Suc intro!: useCallback_same)
    with False l made show ?thesis
      by (simp add: component_ok_def rerender_def Let_def)
  qed
qed

lemma mounted_ok: "mounted c \<Longrightarrow> component_ok c"
  by (induction rule: mounted.induct) (simp_all add: mount_ok rerender_ok keydown_def click_def)

section \<open>The component computes what the engine does\<close>

lemma closure_calls:
  "component_ok c \<Longrightarrow> calls ev (sees (callbacks c (callback_of ev))) = calls ev (cells c)"
  by (intro calls_deps) (simp add: component_ok_def)

lemma cells_rerender [simp]: "cells (rerender s c) = s"
  by (simp add: rerender_def Let_def)

lemma cells_click:
  "component_ok c \<Longrightarrow> cells (click b c) = handle (onClick b) (cells c)"
  by (simp add: click_def closure_calls commit_calls)

lemma keyboard_callbacks:
  "key_action e = Some ev \<Longrightarrow> callback_of ev \<in> set keyboard_deps"
  by (auto simp: key_action_def keyboard_deps_def split: if_splits)

lemma cells_keydown:
  assumes "component_ok c"
  shows "cells (keydown e c) = snd (handleKeyDown e (cells c))"
proof -
  from assms obtain n h where l: "window_listeners c = [\<lparr>registered_in = n, holds = h\<rparr>]"
    "\<forall>cb \<in> set keyboard_deps. h cb = callbacks c cb"
    unfolding component_ok_def by blast
  show ?thesis
  proof (cases "key_action e")
    case None
    thus ?thesis
      by (simp add: keydown_def l(1) listener_calls_def handleKeyDown_def commit_def)
  next
    case (Some ev)
    with l(2) keyboard_callbacks [OF Some] have "h (callback_of ev) = callbacks c (callback_of ev)"
      by simp
    with Some closure_calls [OF assms, of ev] show ?thesis
      by (simp add: keydown_def l(1) listener_calls_def handleKeyDown_def commit_calls)
  qed
qed

lemma unmount_removes:
  "component_ok c \<Longrightarrow> window_listeners (unmount c) = []"
  by (auto simp: component_ok_def unmount_def removeEventListener_def)

text \<open>
  C20. The dependency arrays are complete: a handler that closes over an
  older state makes the same setter calls as one closing over the current
  state, as long as the two states agree on the cells its dependency array
  lists. No handler reads a cell that is missing from its array.
\<close>

theorem dependency_arrays_complete:
  assumes "deps_same (callback_of ev) c s"
  shows "calls ev c = calls ev s"
  using assms by (rule calls_deps)

theorem dependency_arrays_complete_witness:
  "calls (InputDigit ''7'')
     \<lparr>display = ''12'', previousValue = Some (number_of_int 5), operator = Some Add,
      waitingForOperand = False\<rparr> =
   calls (InputDigit ''7'')
     \<lparr>display = ''12'', previousValue = None, operator = None, waitingForOperand = False\<rparr>"
  by (rule dependency_arrays_complete) (simp add: deps_same_def)

text \<open>
  C7. The mounted component computes what the engine does, with one listener.
  In every component that mounting, key presses and clicks can produce, a key
  press changes the cells as \<open>handleKeyDown\<close> does and a click as the handler of
  the button does, although both run function objects of earlier renders;
  exactly one \<^verbatim>\<open>keydown\<close> listener is registered, and unmounting removes it.
\<close>

theorem component_refines_engine:
  assumes "mounted c"
  shows "cells (keydown e c) = snd (handleKeyDown e (cells c)) \<and>
         cells (click b c) = handle (onClick b) (cells c) \<and>
         length (window_listeners c) = 1 \<and> window_listeners (unmount c) = []"
  using mounted_ok [OF assms]
  by (auto simp: cells_keydown cells_click unmount_removes component_ok_def)

theorem component_refines_engine_witness:
  "cells (keydown (plain_key ''='') (click Button3 (keydown (plain_key ''+'') (click Button5 mount)))) =
     snd (handleKeyDown (plain_key ''='')
       (cells (click Button3 (keydown (plain_key ''+'') (click Button5 mount))))) \<and>
   display (cells (keydown (plain_key ''='')
     (click Button3 (keydown (plain_key ''+'') (click Button5 mount))))) = ''8'' \<and>
   length (window_listeners (click Button3 (keydown (plain_key ''+'') (click Button5 mount)))) = 1"
proof -
  let ?c = "click Button3 (keydown (plain_key ''+'') (click Button5 mount))"
  have "mounted ?c" by (intro mounted.intros)
  from component_refines_engine [OF this, of "plain_key ''=''" Button3]
  have "cells (keydown (plain_key ''='') ?c) = snd (handleKeyDown (plain_key ''='') (cells ?c))"
    "length (window_listeners ?c) = 1"
    by simp_all
  moreover have "display (cells (keydown (plain_key ''='') ?c)) = ''8''"
    by code_simp
  ultimately show ?thesis by simp
qed

end
