(* ===== verification/Spec2Isabelle.thy ===== *)
theory Spec2Isabelle
  imports Interface Theme Calculator_Integer Hooks
begin

text \<open>
  \<^bold>\<open>A verified model of the calculator page\<close>

  The repository is a single-page calculator. All of its logic is the React
  component of src/client/src/pages/Calculator.tsx; src/server/routes.ts
  registers no route and only creates the HTTP server that serves the page.

  \<^bold>\<open>The program.\<close> The component keeps five state cells. Four belong to the
  calculator engine: the text \<^verbatim>\<open>display\<close>, the stored operand \<^verbatim>\<open>previousValue\<close> (a
  JavaScript number or null), the pending \<^verbatim>\<open>operator\<close> and the flag
  \<^verbatim>\<open>waitingForOperand\<close>. The fifth is the colour theme, mirrored in local storage
  and in a class of the document element. Six handlers change the engine
  state: \<^verbatim>\<open>inputDigit\<close>, \<^verbatim>\<open>performOperation\<close>, \<^verbatim>\<open>clearAll\<close>, \<^verbatim>\<open>toggleSign\<close>,
  \<^verbatim>\<open>inputPercent\<close> and \<^verbatim>\<open>handleBackspace\<close>. They are function objects kept by
  \<^verbatim>\<open>useCallback\<close>, called from the buttons of the keypad and from a \<^verbatim>\<open>keydown\<close>
  listener that an effect registers on the window. The handlers work on the
  display string with \<^verbatim>\<open>parseFloat\<close>, the arithmetic of IEEE 754 doubles,
  \<^verbatim>\<open>Number.isInteger\<close>, \<^verbatim>\<open>toFixed(8)\<close> and \<^verbatim>\<open>toString\<close>, so what the user sees is
  decided by the number runtime as much as by the handlers.

  \<^bold>\<open>The theories.\<close>
  \<^item> \<open>Calc_Prelude\<close>: fact collections, the string operations of JavaScript the
    source uses, decimal digit characters, lemmas on counting a character.
  \<^item> \<open>JS_Number\<close>: the type \<open>number\<close> of doubles (\<open>NaN\<close>, \<open>Infty\<close>, \<open>Fin\<close> sign
    magnitude exponent in a normal form with odd magnitude), \<open>round_frac\<close>
    (round to nearest, ties to even, with subnormals, overflow and signed
    zeros) and the operations \<open>number_add\<close>, \<open>number_subtract\<close>,
    \<open>number_multiply\<close>, \<open>number_divide\<close>, \<open>is_zero\<close> (\<^verbatim>\<open>=== 0\<close>) and \<open>isInteger\<close>,
    each computing the exact result and rounding once; the format predicate
    \<open>is_double\<close> and its preservation by rounding and by the operators.
  \<^item> \<open>JS_Number_Exact\<close>: the operators read as real arithmetic through
    \<open>value_of\<close>. \<open>rounds_to\<close> specifies rounding; each operator is shown to
    round the exact real result, to return a double nearest to it (the
    result itself when it is \<open>representable\<close>), and to miss it by at most
    half a unit in the last place.
  \<^item> \<open>JS_Number_Integer\<close>: integers below \<open>2\<^sup>5\<^sup>3\<close> as doubles; the operators
    compute the double of the integer result term for term.
  \<^item> \<open>JS_Number_String\<close>: \<open>number_toString\<close> (shortest digits that read back,
    laid out in plain or exponent notation as ECMA-262 prescribes),
    \<open>number_toFixed\<close> and \<open>parseFloat\<close> (longest literal prefix, exact rounding);
    lemmas on the characters of a printed number and on typed literals.
  \<^item> \<open>JS_Number_Roundtrip\<close>: printing and parsing of integers, with the
    reference numeral \<open>show_int\<close>, and the bound of the digit search.
  \<^item> \<open>Calculator\<close>: the record \<open>calc_state\<close>, one definition per handler with
    the guards and early returns of the source in source order, the events a
    user can raise (\<open>event\<close>, \<open>handle\<close>, \<open>run\<close>), the reachable states and the
    invariants \<open>calc_inv\<close> and \<open>value_inv\<close> with one preservation lemma per
    handler.
  \<^item> \<open>Calculator_Integer\<close>: the engine on typed integers from the first key
    to the result, against the integer operations \<open>int_op\<close>.
  \<^item> \<open>Interface\<close>: the \<^verbatim>\<open>keydown\<close> listener (\<open>key_action\<close>, \<open>handleKeyDown\<close>) and the
    keypad (\<open>button\<close>, \<open>onClick\<close>), with the agreement of the two.
  \<^item> \<open>Hooks\<close>: the component as React runs it: handlers as setter calls
    (\<open>calls\<close>, \<open>commit\<close>), the dependency arrays (\<open>deps\<close>, \<open>useCallback\<close>), renders
    with the keyboard effect (\<open>mount\<close>, \<open>rerender\<close>, \<open>unmount\<close>) and the dispatch
    of key presses and clicks (\<open>keydown\<close>, \<open>click\<close>).
  \<^item> \<open>Theme\<close>: the theme cell, its initialisation from storage, the effect that
    writes it back and the toggle.
  \<^item> \<open>Spec2Isabelle\<close> (this theory): the page as a whole (\<open>page_state\<close>,
    \<open>page_step\<close>, \<open>page_reachable\<close>), the mounted component driven by the same
    inputs (\<open>component_step\<close>, \<open>component_run\<close>), the properties that span
    engine, interface, hooks and theme, and the scenarios of the
    specification run through the buttons.

  \<^bold>\<open>Correspondence.\<close> A handler of the source closes over the state of the
  render that created it and calls setters; React applies the updates and
  renders again before the next event is dispatched. \<open>Calculator\<close> takes a
  handler as a function from the state at the event to the state after it, a
  \<^verbatim>\<open>return\<close> in the middle of a handler as the branch that leaves the remaining
  fields untouched. \<open>Hooks\<close> keeps the closures, the setter calls and the
  dependency arrays as the source has them and proves that the two readings
  agree. The type \<^verbatim>\<open>Operator\<close> is a datatype of four constructors and \<^verbatim>\<open>null\<close> is
  \<open>None\<close>; the truthiness test \<^verbatim>\<open>if (operator)\<close> is the case distinction on the
  option. Numbers are not idealised: \<open>0.1 + 0.2\<close> is the double
  \<open>0.30000000000000004\<close> in the model as in the browser.

  \<^bold>\<open>What is shown.\<close> For the numbers: the operators stay within binary64,
  round the exact real result once, return a finite double that no other
  double beats in distance to the exact result, are exact on representable
  results and on integers below \<open>2\<^sup>5\<^sup>3\<close>, and err by at most half a unit in the
  last place;
  integers print as their decimal numerals and read back as themselves. For
  the engine: the invariants of reachable states (error marker only with
  nothing stored, at most one decimal point, a display made of the characters
  of a printed number, a stored operand that is a double), the length bound
  of typed input, the behaviour of division by zero and that nothing else
  leads to the error state, recovery from it, the result of a two-operand
  calculation in terms of the number operations and, for typed integers, as
  the numeral of the integer result, idempotence of equals, backspace as the
  inverse of a digit key, the frame of the sign and percent keys, and that a
  number can be entered from any state. For the hooks: the dependency arrays
  are complete, one listener is registered while the component is mounted,
  and the component computes what the state functions compute. For the
  interface: modifiers are ignored, keys and buttons agree, and the user
  events are exactly the button events plus backspace. For the theme:
  storage and class follow the theme, toggling twice is the identity, the
  default is dark. For the page: engine and theme do not interfere, the
  invariants hold however clicks, keys and toggles interleave, and the
  mounted component, run on such a sequence, holds in its cells the state the
  page functions compute. Theorems named
  as findings show where the code departs from the specification: results
  longer than 15 characters, \<^verbatim>\<open>NaN\<close> on the display, a stored value that differs
  from the displayed one, an unrecognised saved theme that is kept, and key
  names of several characters accepted as digits.

  \<^bold>\<open>Bounds.\<close> The digit search of \<open>number_toString\<close> tries 1 to 17 digits and
  takes the nearest 17-digit decimal if none shorter reads back; that it
  stops there is proved, and for integers below \<open>2\<^sup>5\<^sup>3\<close> that it stops earlier,
  at the digits of the integer. That 17 digits identify every double is the
  classical bound the fallback relies on; it is not proved here. Rounding
  uses exact integer arithmetic, with \<open>-1074\<close> as the exponent of the last
  subnormal bit and \<open>2\<^sup>1\<^sup>0\<^sup>2\<^sup>4\<close> as the overflow threshold after rounding. The
  integer results are stated below \<open>2\<^sup>5\<^sup>3\<close>, the range in which every integer is
  a double; typed operands have at most 15 digits, so every sum and
  difference of typed integers is within it. \<open>parseFloat\<close> rounds the exact
  value of the literal for any number of digits; ECMA-262 leaves the digits
  after the twentieth to the implementation, and the displays of the
  calculator stay below that.

  \<^bold>\<open>Not modelled.\<close> The JSX layout and styling, the DOM, React's scheduling
  beyond one render after each event, and the server, which registers no
  route. Strings are sequences of 8-bit characters, which covers every string
  the engine builds; a key name outside Latin-1 cannot be written in the
  model.
\<close>

section \<open>The page\<close>

record page_state =
  calc :: calc_state
  themes :: theme_state

datatype page_input = Click button | KeyDown keyboard_event | ClickThemeToggle

definition page_initial :: "js_string option \<Rightarrow> bool \<Rightarrow> page_state" where
  "page_initial saved cls = \<lparr>calc = initial, themes = mount_theme saved cls\<rparr>"

fun page_step :: "page_input \<Rightarrow> page_state \<Rightarrow> page_state" where
  "page_step (Click b) p = p\<lparr>calc := handle (onClick b) (calc p)\<rparr>"
| "page_step (KeyDown e) p = p\<lparr>calc := snd (handleKeyDown e (calc p))\<rparr>"
| "page_step ClickThemeToggle p = p\<lparr>themes := click_theme_toggle (themes p)\<rparr>"

fun page_run :: "page_input list \<Rightarrow> page_state \<Rightarrow> page_state" where
  "page_run [] p = p"
| "page_run (i # is) p = page_run is (page_step i p)"

text \<open>
  The same inputs on the component of \<open>Hooks\<close>: a click and a key press run
  the function objects of the last render, and a theme toggle renders the
  component again with the engine cells as they are.
\<close>

fun component_step :: "page_input \<Rightarrow> component \<Rightarrow> component" where
  "component_step (Click b) c = click b c"
| "component_step (KeyDown e) c = keydown e c"
| "component_step ClickThemeToggle c = rerender (cells c) c"

fun component_run :: "page_input list \<Rightarrow> component \<Rightarrow> component" where
  "component_run [] c = c"
| "component_run (i # is) c = component_run is (component_step i c)"

text \<open>
  The key names a keyboard reports are single characters or words such as
  \<^verbatim>\<open>Enter\<close>; none of several characters lies between \<^verbatim>\<open>"0"\<close> and \<^verbatim>\<open>"9"\<close>.
\<close>

definition keyboard_key :: "js_string \<Rightarrow> bool" where
  "keyboard_key k \<longleftrightarrow> length k = 1 \<or> \<not> (''0'' \<le> k \<and> k \<le> ''9'')"

fun page_input_ok :: "page_input \<Rightarrow> bool" where
  "page_input_ok (KeyDown e) = keyboard_key (key e)"
| "page_input_ok i = True"

inductive page_reachable :: "page_state \<Rightarrow> bool" where
  page_start: "page_reachable (page_initial saved cls)"
| page_next: "page_reachable p \<Longrightarrow> page_input_ok i \<Longrightarrow> page_reachable (page_step i p)"

section \<open>Engine, interface and theme together\<close>

lemma key_action_user_event:
  assumes "key_action e = Some ev" "keyboard_key (key e)"
  shows "user_event ev"
proof (cases "''0'' \<le> key e \<and> key e \<le> ''9''")
  case True
  with assms(2) obtain c where c: "key e = [c]"
    by (cases "key e") (auto simp: keyboard_key_def)
  with True have "CHR ''0'' \<le> c" "c \<le> CHR ''9''"
    by (auto simp: less_le)
  then have "is_digit c"
    by (rule char_digit_range)
  then have "[c] \<in> set digit_keys"
    by (auto simp: digit_keys_def is_digit_def)
  with assms(1) True c show ?thesis
    by (auto simp: key_action_def split: if_splits)
next
  case False
  with assms(1) show ?thesis
    by (auto simp: key_action_def digit_keys_def split: if_splits)
qed

lemma page_step_calc_reachable:
  assumes "reachable (calc p)" "page_input_ok i"
  shows "reachable (calc (page_step i p))"
proof (cases i)
  case (Click b)
  with assms(1) show ?thesis
    by (simp add: reachable.step onClick_user_event)
next
  case (KeyDown e)
  show ?thesis
  proof (cases "key_action e")
    case None
    with KeyDown assms(1) show ?thesis
      by (simp add: handleKeyDown_def)
  next
    case (Some ev)
    with KeyDown assms(2) have "user_event ev"
      by (auto intro: key_action_user_event)
    with KeyDown Some assms(1) show ?thesis
      by (simp add: handleKeyDown_def reachable.step)
  qed
next
  case ClickThemeToggle
  with assms(1) show ?thesis
    by simp
qed

lemma page_step_theme_reachable:
  "theme_reachable (themes p) \<Longrightarrow> theme_reachable (themes (page_step i p))"
  by (cases i) (simp_all add: theme_reachable.toggled)

lemma page_reachable_parts:
  "page_reachable p \<Longrightarrow> reachable (calc p) \<and> theme_reachable (themes p)"
proof (induction rule: page_reachable.induct)
  case (page_start saved cls)
  show ?case
    by (simp add: page_initial_def reachable.start theme_reachable.mounted)
next
  case (page_next p i)
  then show ?case
    by (simp add: page_step_calc_reachable page_step_theme_reachable)
qed

lemma page_run_reachable:
  "page_reachable p \<Longrightarrow> list_all page_input_ok is \<Longrightarrow> page_reachable (page_run is p)"
  by (induction "is" arbitrary: p) (auto intro: page_reachable.page_next)

text \<open>
  C12. However clicks, key presses and theme toggles interleave, the page
  stays well formed: an error display comes with nothing stored, the display
  holds at most one decimal point, and storage and document class follow the
  theme.
\<close>

theorem page_invariant:
  assumes "page_reachable p"
  shows "(display (calc p) = ''Error'' \<longrightarrow>
      previousValue (calc p) = None \<and> operator (calc p) = None)
    \<and> dots (display (calc p)) \<le> 1
    \<and> stored (themes p) = Some (theme (themes p))
    \<and> dark_class (themes p) = (theme (themes p) = ''dark'')"
proof -
  from page_reachable_parts [OF assms]
  have c: "calc_inv (calc p)" and t: "theme_synced (themes p)"
    by (simp_all add: reachable_inv theme_reachable_synced)
  from c have "dots (display (calc p)) \<le> 1"
    by (cases "display (calc p) = ''Error''") (simp_all add: calc_inv_def wf_display_def)
  with c t show ?thesis
    by (simp add: calc_inv_def theme_synced_def)
qed

theorem page_invariant_witness:
  "page_reachable (page_run [Click Button5, ClickThemeToggle, KeyDown (plain_key ''/''),
       Click Button0, KeyDown (plain_key ''Enter'')] (page_initial None False))
   \<and> display (calc (page_run [Click Button5, ClickThemeToggle, KeyDown (plain_key ''/''),
       Click Button0, KeyDown (plain_key ''Enter'')] (page_initial None False))) = ''Error''
   \<and> previousValue (calc (page_run [Click Button5, ClickThemeToggle, KeyDown (plain_key ''/''),
       Click Button0, KeyDown (plain_key ''Enter'')] (page_initial None False))) = None
   \<and> stored (themes (page_run [Click Button5, ClickThemeToggle, KeyDown (plain_key ''/''),
       Click Button0, KeyDown (plain_key ''Enter'')] (page_initial None False))) = Some ''light''"
proof -
  let ?p = "page_run [Click Button5, ClickThemeToggle, KeyDown (plain_key ''/''),
       Click Button0, KeyDown (plain_key ''Enter'')] (page_initial None False)"
  have r: "page_reachable ?p"
    by (intro page_run_reachable page_reachable.page_start)
      (simp add: keyboard_key_def plain_key_def)
  have d: "display (calc ?p) = ''Error''"
    by code_simp
  have t: "theme (themes ?p) = ''light''"
    by code_simp
  from page_invariant [OF r] r d t show ?thesis
    by simp
qed

section \<open>Where the code departs from the specification\<close>

text \<open>
  Three runs on the keypad that the findings refer to, evaluated. Percent of
  0.000005 prints in exponent notation with twenty-one characters. Backspace
  after a sign change on a single digit leaves a lone minus sign, which reads
  as NaN at the next sign change. After 0.1 plus 0.2 the display shows 0.3
  while the stored operand is the double 0.30000000000000004, which is not
  what the display reads as.
\<close>

lemma percent_in_exponent_notation:
  "display (run (map onClick [ButtonDecimal, Button0, Button0, Button0, Button0, Button0,
       Button5, ButtonPercent]) initial) = ''5.0000000000000004e-8''"
  by code_simp

lemma sign_backspace_sign_gives_NaN:
  "display (run [InputDigit ''5'', ToggleSign, HandleBackspace, ToggleSign] initial) = ''NaN''"
  by code_simp

lemma stored_value_differs_from_display:
  "run (map onClick [Button0, ButtonDecimal, Button1, ButtonAdd, Button0, ButtonDecimal,
       Button2, ButtonEquals]) initial =
     \<lparr>display = ''0.3'', previousValue = Some (Fin False 1351079888211149 (- 52)),
       operator = None, waitingForOperand = True\<rparr>
   \<and> number_toString (Fin False 1351079888211149 (- 52)) = ''0.30000000000000004''
   \<and> parseFloat ''0.3'' \<noteq> Fin False 1351079888211149 (- 52)"
  by code_simp

section \<open>The component and the page\<close>

lemma component_step_mounted: "mounted c \<Longrightarrow> mounted (component_step i c)"
  by (cases i) (simp_all add: mounted.intros)

lemma component_step_cells:
  "mounted c \<Longrightarrow> cells c = calc p \<Longrightarrow> cells (component_step i c) = calc (page_step i p)"
  by (cases i) (simp_all add: cells_keydown cells_click mounted_ok)

lemma component_run_cells:
  "mounted c \<Longrightarrow> cells c = calc p \<Longrightarrow>
     mounted (component_run is c) \<and> cells (component_run is c) = calc (page_run is p)"
proof (induction "is" arbitrary: c p)
  case Nil
  then show ?case by simp
next
  case (Cons i "is")
  from Cons.IH [OF component_step_mounted [OF Cons.prems(1)]
      component_step_cells [OF Cons.prems, of i]]
  show ?case by simp
qed

text \<open>
  C11. The page model is what the component does. Whatever clicks, key presses
  and theme toggles arrive, the state cells of the component run by React,
  with its function objects, dependency arrays and listener, are the engine
  state of the page model after the same inputs, and the component stays
  within the mounted components, where one listener is registered.
\<close>

theorem component_run_is_page_run:
  "cells (component_run is mount) = calc (page_run is (page_initial saved cls)) \<and>
   mounted (component_run is mount)"
  using component_run_cells [OF mounted.first, of "page_initial saved cls" "is"]
  by (simp add: mount_def page_initial_def Let_def)

end
